theory Spec2Isabelle
  imports
    Complex_Main
    "HOL-Library.Word"
    "HOL-Library.Signed_Division"
    "HOL-Library.Log_Nat"
    "HOL-Library.Multiset"
    "HOL-Library.Char_ord"
    "HOL-Library.List_Lexorder"
    "HOL-Library.AList"
    "HOL-Library.Sublist"
begin

section \<open>Values and library boundary\<close>

text \<open>
  The program is the Go package \<open>internal\<close> of prettylog: \<open>Scan\<close>, \<open>PrettyPrint\<close>,
  \<open>TryHandleJson\<close>, \<open>tryParseTime\<close>, \<open>parseTimeFloat64\<close> and \<open>imin\<close>.
  Go strings are byte sequences, so they are \<^typ>\<open>string\<close> here (a list of 8-bit
  characters) and \<open>len\<close> is \<^const>\<open>length\<close>. \<open>int64\<close> is \<^typ>\<open>64 word\<close>: \<open>*\<close> wraps,
  \<open><s\<close> compares signed, and \<open>div64\<close> and \<open>mod64\<close> are Go's \<open>/\<close> and \<open>%\<close>, which
  truncate towards zero (the remainder has the sign of the dividend).
\<close>

type_synonym int64 = "64 word"
type_synonym int32 = "32 word"

definition div64 :: "int64 \<Rightarrow> int64 \<Rightarrow> int64" where
  "div64 a b = word_of_int (sint a sdiv sint b)"

definition mod64 :: "int64 \<Rightarrow> int64 \<Rightarrow> int64" where
  "mod64 a b = word_of_int (sint a smod sint b)"

text \<open>
  A value of Go's \<open>interface{}\<close>. The JSON decoder produces \<open>nil\<close>, \<open>bool\<close>, \<open>float64\<close>,
  \<open>string\<close>, \<open>[]interface{}\<close> and \<open>map[string]interface{}\<close>; \<open>tryParseTime\<close> also
  switches on \<open>float32\<close>, \<open>int\<close>, \<open>int32\<close> and \<open>int64\<close>. A float carries the real number
  it denotes (the decoder yields no NaN and no infinity). A map is an association list
  with distinct keys; its order stands for the order in which \<open>range\<close> visits it.
\<close>

datatype dyn =
    VNil
  | VBool bool
  | VFloat64 real
  | VString string
  | VSlice "dyn list"
  | VMap "(string \<times> dyn) list"
  | VFloat32 real
  | VInt int64
  | VInt32 int32
  | VInt64 int64

text \<open>
  A \<open>time.Time\<close>: the zero value, the result of \<open>time.Unix(sec, nsec)\<close>, or the result
  of a successful \<open>time.Parse(layout, value)\<close>. The two library calls are kept as
  constructors over their arguments.
\<close>

datatype time = ZeroTime | Unix int64 int64 | Parsed string string

text \<open>
  What the program takes from outside the repository and the model does not compute:
  \<^item> \<open>convOverflow\<close>: the result of converting to \<open>int64\<close> a \<open>float64\<close> whose truncation
    does not fit (implementation-specific in Go);
  \<^item> \<open>timeParses layout s\<close>: whether \<open>time.Parse(layout, s)\<close> returns no error;
  \<^item> \<open>timeFormat t\<close>: \<open>t.Format(time.DateTime)\<close>;
  \<^item> \<open>fmtFloat bits x\<close>: \<open>fmt.Sprint\<close> of a float of \<open>bits\<close> bits (32 or 64);
  \<^item> \<open>parseFloat s\<close>: \<open>strconv.ParseFloat(s, 64)\<close> on a JSON number literal, \<open>None\<close>
    when the value is out of range;
  \<^item> \<open>toUpperRune\<close>, \<open>toLowerRune\<close>: \<open>unicode.ToUpper\<close> and \<open>unicode.ToLower\<close> on code
    points above ASCII;
  \<^item> \<open>noColor\<close>: the \<open>color.NoColor\<close> switch of github.com/fatih/color;
  \<^item> \<open>colorReset attrs\<close>: the reset sequence that library appends after coloured text
    (\<open>ESC[0m\<close> in its older versions, one reset code per attribute in the newer);
  \<^item> \<open>rangeOrder m\<close>: the order in which a \<open>range\<close> loop visits the map \<open>m\<close>, which the
    Go runtime leaves unspecified; it is a permutation of the entries (\<open>rangeOK\<close> below).
\<close>

record env =
  convOverflow :: "real \<Rightarrow> int64"
  timeParses :: "string \<Rightarrow> string \<Rightarrow> bool"
  timeFormat :: "time \<Rightarrow> string"
  fmtFloat :: "nat \<Rightarrow> real \<Rightarrow> string"
  parseFloat :: "string \<Rightarrow> real option"
  toUpperRune :: "nat \<Rightarrow> nat"
  toLowerRune :: "nat \<Rightarrow> nat"
  noColor :: bool
  colorReset :: "nat list \<Rightarrow> string"
  rangeOrder :: "(string \<times> dyn) list \<Rightarrow> (string \<times> dyn) list"

definition rangeOK :: "env \<Rightarrow> bool" where
  "rangeOK E = (\<forall>m. mset (rangeOrder E m) = mset m)"

section \<open>Timestamp normalizer\<close>

text \<open>Go's conversion \<open>int64(value)\<close> of a \<open>float64\<close>: the fraction is discarded.\<close>

definition trunc :: "real \<Rightarrow> int" where
  "trunc x = (if 0 \<le> x then \<lfloor>x\<rfloor> else \<lceil>x\<rceil>)"

definition int64_of_float64 :: "env \<Rightarrow> real \<Rightarrow> int64" where
  "int64_of_float64 E x =
     (if - (2 ^ 63) \<le> trunc x \<and> trunc x < 2 ^ 63
      then word_of_int (trunc x) else convOverflow E x)"

text \<open>
  Go's conversion \<open>float64(i)\<close> of an integer: exact up to 53 significant bits, rounded
  to the nearest float (ties to even) beyond.
\<close>

definition float64_of_int :: "int \<Rightarrow> real" where
  "float64_of_int i =
     (let n = \<bar>i\<bar>; sh = nat (bitlen n - 53);
          q = n div 2 ^ sh; r = n mod 2 ^ sh;
          q' = (if 2 * r > 2 ^ sh \<or> (2 * r = 2 ^ sh \<and> odd q) then q + 1 else q)
      in of_int (sgn i * q' * 2 ^ sh))"

text \<open>
  \<^verbatim>\<open>
  func parseTimeFloat64(value float64) time.Time {
      v := int64(value)
      switch {
      case v > 1e18:
      case v > 1e15:
          v *= 1e3
      case v > 1e12:
          v *= 1e6
      default:
          return time.Unix(v, 0)
      }
      return time.Unix(v/1e9, v%1e9)
  }
  \<close>
\<close>

definition parseTimeFloat64 :: "env \<Rightarrow> real \<Rightarrow> time" where
  "parseTimeFloat64 E value =
     (let v = int64_of_float64 E value in
      if 1000000000000000000 <s v then Unix (div64 v 1000000000) (mod64 v 1000000000)
      else if 1000000000000000 <s v then
        (let v = v * 1000 in Unix (div64 v 1000000000) (mod64 v 1000000000))
      else if 1000000000000 <s v then
        (let v = v * 1000000 in Unix (div64 v 1000000000) (mod64 v 1000000000))
      else Unix v 0)"

text \<open>The layout table \<open>formats\<close>, with the constants of package \<open>time\<close> written out.\<close>

definition formats :: "string list" where
  "formats =
     [''2006-01-02 15:04:05.999999999 -0700 MST'',
      ''2006-01-02 15:04:05'',
      ''2006-01-02T15:04:05-0700'',
      ''2006-01-02T15:04:05Z07:00'',
      ''2006-01-02T15:04:05.999999999Z07:00'',
      ''02 Jan 06 15:04 MST'',
      ''02 Jan 06 15:04 -0700'',
      ''Monday, 02-Jan-06 15:04:05 MST'',
      ''Mon, 02 Jan 2006 15:04:05 MST'',
      ''Mon, 02 Jan 2006 15:04:05 -0700'',
      ''Mon Jan _2 15:04:05 MST 2006'',
      ''Mon Jan 02 15:04:05 -0700 2006'',
      ''Mon Jan _2 15:04:05 2006'',
      ''3:04PM'',
      ''Jan _2 15:04:05'',
      ''Jan _2 15:04:05.000'',
      ''Jan _2 15:04:05.000000'',
      ''Jan _2 15:04:05.000000000'',
      ''2006/01/02 15:04:05'',
      ''2006/01/02 15:04:05.999999999'']"

text \<open>
  \<open>tryParseTime\<close>: a string is tried against the layouts in order and the first that
  parses wins; the five numeric types go through \<open>parseTimeFloat64\<close>; every other
  type, and a string no layout parses, gives the zero time and \<open>false\<close>.
\<close>

fun tryParseTime :: "env \<Rightarrow> dyn \<Rightarrow> time \<times> bool" where
  "tryParseTime E (VString s) =
     (case find (\<lambda>layout. timeParses E layout s) formats of
        Some layout \<Rightarrow> (Parsed layout s, True)
      | None \<Rightarrow> (ZeroTime, False))"
| "tryParseTime E (VFloat32 x) = (parseTimeFloat64 E x, True)"
| "tryParseTime E (VFloat64 x) = (parseTimeFloat64 E x, True)"
| "tryParseTime E (VInt i) = (parseTimeFloat64 E (float64_of_int (sint i)), True)"
| "tryParseTime E (VInt32 i) = (parseTimeFloat64 E (float64_of_int (sint i)), True)"
| "tryParseTime E (VInt64 i) = (parseTimeFloat64 E (float64_of_int (sint i)), True)"
| "tryParseTime E _ = (ZeroTime, False)"

section \<open>Strings\<close>

text \<open>
  UTF-8 as package \<open>unicode/utf8\<close> reads and writes it: \<open>decodeRune\<close> gives the first
  code point and its width, and \<open>(0xFFFD, 1)\<close> on a byte that starts no valid encoding
  (overlong forms, surrogates and values above \<open>0x10FFFF\<close> are invalid).
\<close>

definition RuneError :: nat where
  "RuneError = 0xFFFD"

definition cont :: "char \<Rightarrow> bool" where
  "cont c = (0x80 \<le> (of_char c :: nat) \<and> (of_char c :: nat) \<le> 0xBF)"

definition encodeRune :: "nat \<Rightarrow> string" where
  "encodeRune r =
     (if r < 0x80 then [char_of r]
      else if r < 0x800 then [char_of (0xC0 + r div 64), char_of (0x80 + r mod 64)]
      else if 0x10FFFF < r \<or> (0xD800 \<le> r \<and> r \<le> 0xDFFF) then [CHR 0xEF, CHR 0xBF, CHR 0xBD]
      else if r < 0x10000 then
        [char_of (0xE0 + r div 4096), char_of (0x80 + r div 64 mod 64), char_of (0x80 + r mod 64)]
      else
        [char_of (0xF0 + r div 262144), char_of (0x80 + r div 4096 mod 64),
         char_of (0x80 + r div 64 mod 64), char_of (0x80 + r mod 64)])"

fun decodeRune :: "string \<Rightarrow> nat \<times> nat" where
  "decodeRune [] = (RuneError, 0)"
| "decodeRune (c0 # cs) =
     (let b0 = (of_char c0 :: nat) in
      if b0 < 0x80 then (b0, 1)
      else if 0xC2 \<le> b0 \<and> b0 \<le> 0xDF then
        (case cs of
           c1 # _ \<Rightarrow>
             if cont c1 then ((b0 - 0xC0) * 64 + (of_char c1 - 0x80), 2) else (RuneError, 1)
         | _ \<Rightarrow> (RuneError, 1))
      else if 0xE0 \<le> b0 \<and> b0 \<le> 0xEF then
        (case cs of
           c1 # c2 # _ \<Rightarrow>
             (let b1 = (of_char c1 :: nat);
                  lo = (if b0 = 0xE0 then 0xA0 else 0x80);
                  hi = (if b0 = 0xED then 0x9F else 0xBF)
              in if lo \<le> b1 \<and> b1 \<le> hi \<and> cont c2
                 then ((b0 - 0xE0) * 4096 + (b1 - 0x80) * 64 + (of_char c2 - 0x80), 3)
                 else (RuneError, 1))
         | _ \<Rightarrow> (RuneError, 1))
      else if 0xF0 \<le> b0 \<and> b0 \<le> 0xF4 then
        (case cs of
           c1 # c2 # c3 # _ \<Rightarrow>
             (let b1 = (of_char c1 :: nat);
                  lo = (if b0 = 0xF0 then 0x90 else 0x80);
                  hi = (if b0 = 0xF4 then 0x8F else 0xBF)
              in if lo \<le> b1 \<and> b1 \<le> hi \<and> cont c2 \<and> cont c3
                 then ((b0 - 0xF0) * 262144 + (b1 - 0x80) * 4096 + (of_char c2 - 0x80) * 64
                       + (of_char c3 - 0x80), 4)
                 else (RuneError, 1))
         | _ \<Rightarrow> (RuneError, 1))
      else (RuneError, 1))"

text \<open>The code points of a string, as \<open>range\<close> over a Go string yields them.\<close>

fun decodeRunes :: "string \<Rightarrow> nat list" where
  "decodeRunes [] = []"
| "decodeRunes (c # cs) =
     fst (decodeRune (c # cs)) # decodeRunes (drop (snd (decodeRune (c # cs)) - 1) cs)"

definition encodeRunes :: "nat list \<Rightarrow> string" where
  "encodeRunes rs = concat (map encodeRune rs)"

text \<open>
  \<open>unicode.ToUpper\<close> and \<open>unicode.ToLower\<close>: ASCII is computed, the rest is the library's
  case table.
\<close>

definition unicode_ToUpper :: "env \<Rightarrow> nat \<Rightarrow> nat" where
  "unicode_ToUpper E r =
     (if r \<le> 0x7F then (if 0x61 \<le> r \<and> r \<le> 0x7A then r - 0x20 else r) else toUpperRune E r)"

definition unicode_ToLower :: "env \<Rightarrow> nat \<Rightarrow> nat" where
  "unicode_ToLower E r =
     (if r \<le> 0x7F then (if 0x41 \<le> r \<and> r \<le> 0x5A then r + 0x20 else r) else toLowerRune E r)"

definition isASCII :: "string \<Rightarrow> bool" where
  "isASCII s = list_all (\<lambda>c. (of_char c :: nat) < 0x80) s"

text \<open>
  \<open>strings.ToUpper\<close> and \<open>strings.ToLower\<close>: an all-ASCII string is mapped byte by byte;
  any other string is decoded, mapped code point by code point and encoded again, so its
  length in bytes can change.
\<close>

definition ToUpper :: "env \<Rightarrow> string \<Rightarrow> string" where
  "ToUpper E s =
     (if isASCII s then map (\<lambda>c. char_of (unicode_ToUpper E (of_char c))) s
      else encodeRunes (map (unicode_ToUpper E) (decodeRunes s)))"

definition ToLower :: "env \<Rightarrow> string \<Rightarrow> string" where
  "ToLower E s =
     (if isASCII s then map (\<lambda>c. char_of (unicode_ToLower E (of_char c))) s
      else encodeRunes (map (unicode_ToLower E) (decodeRunes s)))"

text \<open>\<open>strings.Split(s, sep)\<close> for a one-byte separator, and \<open>strings.Join\<close>.\<close>

fun Split :: "string \<Rightarrow> char \<Rightarrow> string list" where
  "Split [] sep = [[]]"
| "Split (c # cs) sep =
     (if c = sep then [] # Split cs sep
      else (case Split cs sep of seg # segs \<Rightarrow> (c # seg) # segs | [] \<Rightarrow> [[c]]))"

fun Join :: "string list \<Rightarrow> string \<Rightarrow> string" where
  "Join [] sep = []"
| "Join [x] sep = x"
| "Join (x # y # xs) sep = x @ sep @ Join (y # xs) sep"

text \<open>\<open>strconv.Itoa\<close> on a natural number.\<close>

fun itoa :: "nat \<Rightarrow> string" where
  "itoa n = (if n < 10 then [char_of (48 + n)] else itoa (n div 10) @ [char_of (48 + n mod 10)])"

declare itoa.simps [simp del]

text \<open>
  A panic of the Go runtime: a failed single-value type assertion, or a slice bound out
  of range.
\<close>

datatype panic = TypeAssertion | SliceBounds

datatype 'a outcome = Ok 'a | Panic panic

text \<open>The slice expression \<open>s[:n]\<close> on a string.\<close>

definition sliceTo :: "string \<Rightarrow> int \<Rightarrow> string outcome" where
  "sliceTo s n = (if 0 \<le> n \<and> n \<le> int (length s) then Ok (take (nat n) s) else Panic SliceBounds)"

definition imin :: "int \<Rightarrow> int \<Rightarrow> int" where
  "imin a b = (if a < b then a else b)"

section \<open>Colours and value formatting\<close>

text \<open>
  A \<open>*color.Color\<close> is its list of attributes. \<open>Sprint\<close> wraps the text in the escape
  sequence of the attributes and the reset sequence, unless colours are switched off.
\<close>

type_synonym color = "nat list"

definition format :: "color \<Rightarrow> string" where
  "format c = [CHR 0x1B, CHR ''[''] @ Join (map itoa c) '';'' @ ''m''"

definition Sprint :: "env \<Rightarrow> color \<Rightarrow> string \<Rightarrow> string" where
  "Sprint E c s = (if noColor E then s else format c @ s @ colorReset E c)"

record Palette =
  KeyColor :: color
  ValColor :: color
  TimeColor :: color
  CallerColor :: color
  MsgLightBgColor :: color
  MsgAbsentLightBgColor :: color
  MsgDarkBgColor :: color
  MsgAbsentDarkBgColor :: color
  DebugLevelColor :: color
  InfoLevelColor :: color
  WarnLevelColor :: color
  ErrorLevelColor :: color
  PanicLevelColor :: color
  FatalLevelColor :: color
  UnknownLevelColor :: color

text \<open>
  The attribute codes: \<open>FgBlack\<close> is 30 and \<open>FgWhite\<close> 37, \<open>FgHiBlack\<close> 90 and \<open>FgHiWhite\<close>
  97, \<open>BgRed\<close> 41, \<open>BgHiRed\<close> 101.
\<close>

definition DefaultPalette :: Palette where
  "DefaultPalette =
     \<lparr> KeyColor = [32], ValColor = [97], TimeColor = [37], CallerColor = [34],
       MsgLightBgColor = [30], MsgAbsentLightBgColor = [90],
       MsgDarkBgColor = [97], MsgAbsentDarkBgColor = [37],
       DebugLevelColor = [35], InfoLevelColor = [36], WarnLevelColor = [33],
       ErrorLevelColor = [31], PanicLevelColor = [41], FatalLevelColor = [101, 97],
       UnknownLevelColor = [35] \<rparr>"

text \<open>
  \<open>fmt.Sprint\<close> of one value: a string as it is, \<open>nil\<close> as \<open><nil>\<close>, a slice as its
  elements between brackets, a map as \<open>map[k:v ...]\<close> in key order.
\<close>

fun fmtSprint :: "env \<Rightarrow> dyn \<Rightarrow> string" where
  "fmtSprint E VNil = ''<nil>''"
| "fmtSprint E (VBool b) = (if b then ''true'' else ''false'')"
| "fmtSprint E (VFloat64 x) = fmtFloat E 64 x"
| "fmtSprint E (VFloat32 x) = fmtFloat E 32 x"
| "fmtSprint E (VString s) = s"
| "fmtSprint E (VSlice vs) = ''['' @ Join (map (fmtSprint E) vs) '' '' @ '']''"
| "fmtSprint E (VMap kvs) =
     ''map['' @ Join (map (\<lambda>(k, v). k @ '':'' @ fmtSprint E v) (sort_key fst kvs)) '' '' @ '']''"
| "fmtSprint E (VInt i) = (if sint i < 0 then ''-'' else []) @ itoa (nat \<bar>sint i\<bar>)"
| "fmtSprint E (VInt32 i) = (if sint i < 0 then ''-'' else []) @ itoa (nat \<bar>sint i\<bar>)"
| "fmtSprint E (VInt64 i) = (if sint i < 0 then ''-'' else []) @ itoa (nat \<bar>sint i\<bar>)"

section \<open>Events and the line renderer\<close>

record KV =
  Key :: string
  Value :: dyn

record Structured =
  Time :: time
  Msg :: string
  Level :: string
  KVs :: "KV list"

text \<open>An \<open>Event\<close>; the pointer \<open>Structured\<close> is \<open>None\<close> when it is \<open>nil\<close>.\<close>

record Event =
  Structured :: "Structured option"
  Raw :: string

text \<open>Go's \<open>error\<close> values that can reach \<open>Scan\<close>; \<open>None\<close> of \<open>error option\<close> is \<open>nil\<close>.\<close>

datatype error = ErrTooLong | ErrRead string

text \<open>The \<open>switch\<close> of \<open>PrettyPrint\<close> on the lower-cased level.\<close>

definition levelColor :: "string \<Rightarrow> color" where
  "levelColor l =
     (if l = ''debug'' then DebugLevelColor DefaultPalette
      else if l = ''info'' then InfoLevelColor DefaultPalette
      else if l = ''warn'' \<or> l = ''warning'' then WarnLevelColor DefaultPalette
      else if l = ''error'' then ErrorLevelColor DefaultPalette
      else if l = ''fatal'' \<or> l = ''panic'' then FatalLevelColor DefaultPalette
      else UnknownLevelColor DefaultPalette)"

text \<open>
  The text \<open>kstr+"="+vstr\<close> of one field: key and value are coloured on their own.
\<close>

definition renderKV :: "env \<Rightarrow> KV \<Rightarrow> string" where
  "renderKV E kv =
     Sprint E (KeyColor DefaultPalette) (Key kv) @ ''=''
     @ Sprint E (ValColor DefaultPalette) (fmtSprint E (Value kv))"

text \<open>
  The loop of \<open>PrettyPrint\<close> over \<open>data.KVs\<close>, on the variables \<open>errorValue\<close>, \<open>caller\<close>
  and \<open>kvs\<close>. The assertions \<open>kv.Value.(string)\<close> have the single-value form, which
  panics on a value that is no string.
\<close>

fun kvLoop :: "env \<Rightarrow> KV list \<Rightarrow> string \<times> string \<times> string list
    \<Rightarrow> (string \<times> string \<times> string list) outcome" where
  "kvLoop E [] st = Ok st"
| "kvLoop E (kv # rest) (errorValue, caller, kvs) =
     (if Key kv = ''stacktrace'' then
        (case Value kv of
           VString s \<Rightarrow> kvLoop E rest (s, caller, kvs)
         | _ \<Rightarrow> Panic TypeAssertion)
      else if Key kv = ''caller'' then
        (case Value kv of
           VString s \<Rightarrow> kvLoop E rest (errorValue, s, kvs)
         | _ \<Rightarrow> Panic TypeAssertion)
      else kvLoop E rest (errorValue, caller, kvs @ [renderKV E kv]))"

text \<open>A field that the loop renders as \<open>key=value\<close>: any key but the two it routes away.\<close>

definition isGeneric :: "KV \<Rightarrow> bool" where
  "isGeneric kv = (Key kv \<noteq> ''stacktrace'' \<and> Key kv \<noteq> ''caller'')"

text \<open>
  The list \<open>kvs\<close> that \<open>PrettyPrint\<close> joins into the main line when the loop completes:
  the rendered generic fields, after \<open>sort.Strings\<close>.
\<close>

definition sortedFields :: "env \<Rightarrow> KV list \<Rightarrow> string list" where
  "sortedFields E kvs = sort (map (renderKV E) (filter isGeneric kvs))"

text \<open>The two frame lines of the traceback block and its bar, as UTF-8.\<close>

definition boxTop :: string where
  "boxTop = encodeRunes ([0x256D] @ replicate 16 0x2500 @ map of_char ''Traceback''
                         @ replicate 10 0x2500)"

definition boxBar :: string where
  "boxBar = encodeRunes [0x2502]"

definition boxBottom :: string where
  "boxBottom = encodeRunes ([0x2570] @ replicate 35 0x2500)"

text \<open>The record \<open>log.Printf("%s [%s] %s\t[%s] %s", ...)\<close> writes.\<close>

definition mainLine :: "env \<Rightarrow> Structured \<Rightarrow> string \<Rightarrow> string \<Rightarrow> string list \<Rightarrow> string" where
  "mainLine E data lvl caller kvs =
     Sprint E (TimeColor DefaultPalette) (timeFormat E (Time data)) @ '' ['' @ lvl @ ''] ''
     @ Msg data @ [CHR 0x09] @ ''['' @ Sprint E (CallerColor DefaultPalette) caller @ ''] ''
     @ Join kvs [CHR 0x09]"

definition traceback :: "env \<Rightarrow> string \<Rightarrow> string list" where
  "traceback E errorValue =
     [Sprint E (ErrorLevelColor DefaultPalette) boxTop]
     @ map (\<lambda>line. Sprint E (ErrorLevelColor DefaultPalette) boxBar @ line)
         (Split errorValue CHR 0x0A)
     @ [Sprint E (ErrorLevelColor DefaultPalette) boxBottom]"

text \<open>
  \<open>PrettyPrint\<close>: the records written to the log, in order, and the returned error;
  or the panic that ends the run before anything of this event is written.
\<close>

definition PrettyPrint :: "env \<Rightarrow> Event \<Rightarrow> (string list \<times> error option) outcome" where
  "PrettyPrint E ev =
     (case Structured ev of
        None \<Rightarrow> Ok ([Raw ev], None)
      | Some data \<Rightarrow>
          (case sliceTo (ToUpper E (Level data)) (imin 4 (int (length (Level data)))) of
             Panic p \<Rightarrow> Panic p
           | Ok lvl0 \<Rightarrow>
               (let lvl = Sprint E (levelColor (ToLower E (Level data))) lvl0 in
                case kvLoop E (KVs data) ([], [], []) of
                  Panic p \<Rightarrow> Panic p
                | Ok (errorValue, caller, kvs0) \<Rightarrow>
                    (let kvs = sort kvs0 in
                     Ok (mainLine E data lvl caller kvs
                           # (if errorValue \<noteq> [] then traceback E errorValue else []),
                         None)))))"

section \<open>JSON decoding\<close>

text \<open>
  \<open>json.Unmarshal\<close> of package \<open>encoding/json\<close>, for the target \<open>map[string]interface{}\<close>:
  the text must be one JSON value between optional white space; an object fills the map
  (a repeated key keeps its last value), the literal \<open>null\<close> is accepted without error and
  leaves no entry, and every other value is an error, as is a number outside the range
  of \<open>float64\<close> and nesting deeper than 10000. The recursion carries fuel; each call
  consumes input, so twice the length of the text is enough (\<open>fuel_enough\<close> below).
\<close>

datatype json =
    JNull
  | JBool bool
  | JNumber string
  | JString string
  | JArray "json list"
  | JObject "(string \<times> json) list"

definition isSpace :: "char \<Rightarrow> bool" where
  "isSpace c = (c = CHR '' '' \<or> c = CHR 0x09 \<or> c = CHR 0x0D \<or> c = CHR 0x0A)"

definition skipSpace :: "string \<Rightarrow> string" where
  "skipSpace s = dropWhile isSpace s"

definition isDigit :: "char \<Rightarrow> bool" where
  "isDigit c = (CHR ''0'' \<le> c \<and> c \<le> CHR ''9'')"

definition hexVal :: "char \<Rightarrow> nat option" where
  "hexVal c =
     (if CHR ''0'' \<le> c \<and> c \<le> CHR ''9'' then Some (of_char c - 48)
      else if CHR ''a'' \<le> c \<and> c \<le> CHR ''f'' then Some (of_char c - 87)
      else if CHR ''A'' \<le> c \<and> c \<le> CHR ''F'' then Some (of_char c - 55)
      else None)"

text \<open>\<open>getu4\<close>: the code unit of an escape \<open>\uXXXX\<close> at the head of the text.\<close>

definition getu4 :: "string \<Rightarrow> nat option" where
  "getu4 s =
     (case s of
        b # u # h1 # h2 # h3 # h4 # _ \<Rightarrow>
          (if b = CHR 0x5C \<and> u = CHR ''u'' then
             (case (hexVal h1, hexVal h2, hexVal h3, hexVal h4) of
                (Some a, Some b, Some c, Some d) \<Rightarrow> Some (a * 4096 + b * 256 + c * 16 + d)
              | _ \<Rightarrow> None)
           else None)
      | _ \<Rightarrow> None)"

definition simpleEscape :: "char \<Rightarrow> char option" where
  "simpleEscape e =
     (if e = CHR 0x22 \<or> e = CHR 0x5C \<or> e = CHR ''/'' then Some e
      else if e = CHR ''b'' then Some (CHR 0x08)
      else if e = CHR ''f'' then Some (CHR 0x0C)
      else if e = CHR ''n'' then Some (CHR 0x0A)
      else if e = CHR ''r'' then Some (CHR 0x0D)
      else if e = CHR ''t'' then Some (CHR 0x09)
      else None)"

definition prepend :: "string \<Rightarrow> (string \<times> string) option \<Rightarrow> (string \<times> string) option" where
  "prepend bs r = map_option (\<lambda>(str, rest). (bs @ str, rest)) r"

text \<open>
  The text of a string literal after its opening quote: the bytes it denotes and the
  text after the closing quote. A lone surrogate escape becomes \<open>U+FFFD\<close>.
\<close>

fun scanString :: "string \<Rightarrow> (string \<times> string) option" where
  "scanString [] = None"
| "scanString (c # cs) =
     (if c = CHR 0x22 then Some ([], cs)
      else if c = CHR 0x5C then
        (case cs of
           [] \<Rightarrow> None
         | e # r \<Rightarrow>
             if e = CHR ''u'' then
               (case getu4 (c # cs) of
                  None \<Rightarrow> None
                | Some rr \<Rightarrow>
                    if 0xD800 \<le> rr \<and> rr < 0xE000 then
                      (case getu4 (drop 4 r) of
                         Some rr1 \<Rightarrow>
                           if rr < 0xDC00 \<and> 0xDC00 \<le> rr1 \<and> rr1 < 0xE000
                           then prepend
                                  (encodeRune ((rr - 0xD800) * 1024 + (rr1 - 0xDC00) + 0x10000))
                                  (scanString (drop 10 r))
                           else prepend (encodeRune RuneError) (scanString (drop 4 r))
                       | None \<Rightarrow> prepend (encodeRune RuneError) (scanString (drop 4 r)))
                    else prepend (encodeRune rr) (scanString (drop 4 r)))
             else
               (case simpleEscape e of
                  None \<Rightarrow> None
                | Some b \<Rightarrow> prepend [b] (scanString r)))
      else if (of_char c :: nat) < 0x20 then None
      else prepend [c] (scanString cs))"

text \<open>Bytes that are not valid UTF-8 are replaced by \<open>U+FFFD\<close>.\<close>

definition toValidUTF8 :: "string \<Rightarrow> string" where
  "toValidUTF8 s = encodeRunes (decodeRunes s)"

text \<open>
  The parts of a number literal at the head of the text, each with the text after it: an
  optional minus sign, the integer digits (a single \<open>0\<close>, or digits that do not start
  with \<open>0\<close>), an optional fraction, an optional exponent.
\<close>

definition scanSign :: "string \<Rightarrow> string \<times> string" where
  "scanSign s =
     (case s of
        c # r \<Rightarrow> if c = CHR ''-'' then ([c], r) else ([], s)
      | [] \<Rightarrow> ([], s))"

definition scanInt :: "string \<Rightarrow> (string \<times> string) option" where
  "scanInt s =
     (case s of
        c # r \<Rightarrow>
          if c = CHR ''0'' then Some ([c], r)
          else if isDigit c then Some (c # takeWhile isDigit r, dropWhile isDigit r)
          else None
      | [] \<Rightarrow> None)"

definition scanFraction :: "string \<Rightarrow> (string \<times> string) option" where
  "scanFraction s =
     (case s of
        c # r \<Rightarrow>
          if c = CHR ''.'' then
            (if takeWhile isDigit r = [] then None
             else Some (c # takeWhile isDigit r, dropWhile isDigit r))
          else Some ([], s)
      | [] \<Rightarrow> Some ([], s))"

definition scanExpSign :: "string \<Rightarrow> string \<times> string" where
  "scanExpSign s =
     (case s of
        c # r \<Rightarrow> if c = CHR ''+'' \<or> c = CHR ''-'' then ([c], r) else ([], s)
      | [] \<Rightarrow> ([], s))"

definition scanExponent :: "string \<Rightarrow> (string \<times> string) option" where
  "scanExponent s =
     (case s of
        c # r \<Rightarrow>
          if c = CHR ''e'' \<or> c = CHR ''E'' then
            (case scanExpSign r of
               (sg, r1) \<Rightarrow>
                 if takeWhile isDigit r1 = [] then None
                 else Some (c # sg @ takeWhile isDigit r1, dropWhile isDigit r1))
          else Some ([], s)
      | [] \<Rightarrow> Some ([], s))"

text \<open>A number literal at the head of the text, and the text after it.\<close>

definition scanNumber :: "string \<Rightarrow> (string \<times> string) option" where
  "scanNumber s =
     (case scanSign s of
        (sg, s1) \<Rightarrow>
          (case scanInt s1 of
             None \<Rightarrow> None
           | Some (ip, s2) \<Rightarrow>
               (case scanFraction s2 of
                  None \<Rightarrow> None
                | Some (fr, s3) \<Rightarrow>
                    (case scanExponent s3 of
                       None \<Rightarrow> None
                     | Some (ex, s4) \<Rightarrow> Some (sg @ ip @ fr @ ex, s4)))))"

definition maxNestingDepth :: nat where
  "maxNestingDepth = 10000"

fun parseValue :: "nat \<Rightarrow> nat \<Rightarrow> string \<Rightarrow> (json \<times> string) option"
  and parseElems :: "nat \<Rightarrow> nat \<Rightarrow> string \<Rightarrow> json list \<Rightarrow> (json \<times> string) option"
  and parseMembers :: "nat \<Rightarrow> nat \<Rightarrow> string \<Rightarrow> (string \<times> json) list \<Rightarrow> (json \<times> string) option"
where
  "parseValue 0 depth s = None"
| "parseValue (Suc n) depth s =
     (case skipSpace s of
        [] \<Rightarrow> None
      | c # r \<Rightarrow>
          if c = CHR ''{'' then
            (if maxNestingDepth < Suc depth then None
             else (case skipSpace r of
                     [] \<Rightarrow> None
                   | c' # r' \<Rightarrow>
                       if c' = CHR ''}'' then Some (JObject [], r')
                       else parseMembers n (Suc depth) r []))
          else if c = CHR ''['' then
            (if maxNestingDepth < Suc depth then None
             else (case skipSpace r of
                     [] \<Rightarrow> None
                   | c' # r' \<Rightarrow>
                       if c' = CHR '']'' then Some (JArray [], r')
                       else parseElems n (Suc depth) r []))
          else if c = CHR 0x22 then
            map_option (\<lambda>(str, rest). (JString (toValidUTF8 str), rest)) (scanString r)
          else if c = CHR ''-'' \<or> isDigit c then
            map_option (\<lambda>(lit, rest). (JNumber lit, rest)) (scanNumber (c # r))
          else if take 4 (c # r) = ''true'' then Some (JBool True, drop 3 r)
          else if take 5 (c # r) = ''false'' then Some (JBool False, drop 4 r)
          else if take 4 (c # r) = ''null'' then Some (JNull, drop 3 r)
          else None)"
| "parseElems 0 depth s acc = None"
| "parseElems (Suc n) depth s acc =
     (case parseValue n depth s of
        None \<Rightarrow> None
      | Some (v, r) \<Rightarrow>
          (case skipSpace r of
             [] \<Rightarrow> None
           | c # r' \<Rightarrow>
               if c = CHR '','' then parseElems n depth r' (acc @ [v])
               else if c = CHR '']'' then Some (JArray (acc @ [v]), r')
               else None))"
| "parseMembers 0 depth s acc = None"
| "parseMembers (Suc n) depth s acc =
     (case skipSpace s of
        [] \<Rightarrow> None
      | q # r \<Rightarrow>
          if q = CHR 0x22 then
            (case scanString r of
               None \<Rightarrow> None
             | Some (k, r1) \<Rightarrow>
                 (case skipSpace r1 of
                    [] \<Rightarrow> None
                  | c1 # r2 \<Rightarrow>
                      if c1 = CHR '':'' then
                        (case parseValue n depth r2 of
                           None \<Rightarrow> None
                         | Some (v, r3) \<Rightarrow>
                             (case skipSpace r3 of
                                [] \<Rightarrow> None
                              | c3 # r4 \<Rightarrow>
                                  if c3 = CHR '','' then
                                    parseMembers n depth r4 (acc @ [(toValidUTF8 k, v)])
                                  else if c3 = CHR ''}'' then
                                    Some (JObject (acc @ [(toValidUTF8 k, v)]), r4)
                                  else None))
                      else None))
          else None)"

definition parseJSON :: "string \<Rightarrow> json option" where
  "parseJSON d =
     (case parseValue (Suc (Suc (length d + length d))) 0 d of
        None \<Rightarrow> None
      | Some (v, r) \<Rightarrow> if skipSpace r = [] then Some v else None)"

text \<open>The value stored for a JSON value under the target \<open>interface{}\<close>.\<close>

fun toDyn :: "env \<Rightarrow> json \<Rightarrow> dyn option" where
  "toDyn E JNull = Some VNil"
| "toDyn E (JBool b) = Some (VBool b)"
| "toDyn E (JNumber lit) = map_option VFloat64 (parseFloat E lit)"
| "toDyn E (JString s) = Some (VString s)"
| "toDyn E (JArray vs) = map_option VSlice (those (map (toDyn E) vs))"
| "toDyn E (JObject ms) =
     map_option (\<lambda>kvs. VMap (foldl (\<lambda>m (k, v). AList.update k v m) [] kvs))
       (those (map (\<lambda>(k, v). map_option (Pair k) (toDyn E v)) ms))"

text \<open>\<open>json.Unmarshal(d, &raw)\<close> with \<open>raw\<close> an empty map: the map, or \<open>None\<close> for an error.\<close>

definition Unmarshal :: "env \<Rightarrow> string \<Rightarrow> (string \<times> dyn) list option" where
  "Unmarshal E d =
     (case parseJSON d of
        None \<Rightarrow> None
      | Some JNull \<Rightarrow> Some []
      | Some (JObject ms) \<Rightarrow>
          (case toDyn E (JObject ms) of Some (VMap m) \<Rightarrow> Some m | _ \<Rightarrow> None)
      | Some _ \<Rightarrow> None)"

section \<open>Structured line classifier\<close>

text \<open>The index expression \<open>raw[k]\<close>: the zero value \<open>nil\<close> when the key is absent.\<close>

definition index :: "(string \<times> dyn) list \<Rightarrow> string \<Rightarrow> dyn" where
  "index raw k = (case map_of raw k of Some v \<Rightarrow> v | None \<Rightarrow> VNil)"

text \<open>
  The body of \<open>TryHandleJson\<close> after a successful decoding: the three reserved keys are
  moved out of \<open>raw\<close> when they resolve, and what is left is appended to \<open>out.KVs\<close>.
\<close>

definition moveTime :: "env \<Rightarrow> (string \<times> dyn) list \<Rightarrow> Structured
    \<Rightarrow> Structured \<times> (string \<times> dyn) list" where
  "moveTime E raw out =
     (case tryParseTime E (index raw ''ts'') of
        (t, True) \<Rightarrow> (out\<lparr>Time := t\<rparr>, AList.delete ''ts'' raw)
      | (t, False) \<Rightarrow> (out, raw))"

definition moveMsg :: "(string \<times> dyn) list \<Rightarrow> Structured \<Rightarrow> Structured \<times> (string \<times> dyn) list" where
  "moveMsg raw out =
     (case index raw ''msg'' of
        VString msg \<Rightarrow> (out\<lparr>Msg := msg\<rparr>, AList.delete ''msg'' raw)
      | _ \<Rightarrow> (out, raw))"

definition moveLevel :: "(string \<times> dyn) list \<Rightarrow> Structured \<Rightarrow> Structured \<times> (string \<times> dyn) list" where
  "moveLevel raw out =
     (case index raw ''level'' of
        VString level \<Rightarrow> (out\<lparr>Level := level\<rparr>, AList.delete ''level'' raw)
      | _ \<Rightarrow> (out, raw))"

definition fillStructured :: "env \<Rightarrow> (string \<times> dyn) list \<Rightarrow> Structured \<Rightarrow> Structured" where
  "fillStructured E raw out =
     (let (out1, raw1) = moveTime E raw out;
          (out2, raw2) = moveMsg raw1 out1;
          (out3, raw3) = moveLevel raw2 out2
      in out3\<lparr>KVs := KVs out3 @ map (\<lambda>(k, v). \<lparr>Key = k, Value = v\<rparr>) (rangeOrder E raw3)\<rparr>)"

definition TryHandleJson :: "env \<Rightarrow> string \<Rightarrow> Structured \<Rightarrow> bool \<times> Structured" where
  "TryHandleJson E d out =
     (case Unmarshal E d of
        None \<Rightarrow> (False, out)
      | Some raw \<Rightarrow> (True, fillStructured E raw out))"

section \<open>Stream scanner\<close>

text \<open>
  The \<open>io.Reader\<close>: the bytes it delivers and how it ends, with \<open>io.EOF\<close> (\<open>None\<close>) or
  with another error.
\<close>

record Reader =
  content :: string
  readErr :: "error option"

text \<open>
  A \<open>bufio.Scanner\<close> with the split function \<open>bufio.ScanLines\<close> and a buffer of \<open>cap\<close>
  bytes that cannot grow: the tokens it yields until \<open>Scan()\<close> returns \<open>false\<close>, and what
  \<open>Err()\<close> returns then. A token is a line without its line end (\<open>LF\<close>, or \<open>CR LF\<close>);
  a final line needs no line end; a line that does not fit the buffer stops the scanner
  with \<open>ErrTooLong\<close>; a read error comes after the tokens of the bytes delivered.
\<close>

definition dropCR :: "string \<Rightarrow> string" where
  "dropCR s = (if s \<noteq> [] \<and> last s = CHR 0x0D then butlast s else s)"

fun scanSegments :: "nat \<Rightarrow> string list \<Rightarrow> error option \<Rightarrow> string list \<times> error option" where
  "scanSegments cap [] err = ([], err)"
| "scanSegments cap [seg] err =
     (if cap \<le> length seg then ([], Some ErrTooLong)
      else if seg = [] then ([], err)
      else ([dropCR seg], err))"
| "scanSegments cap (seg # rest) err =
     (if cap \<le> length seg then ([], Some ErrTooLong)
      else (case scanSegments cap rest err of (ts, e) \<Rightarrow> (dropCR seg # ts, e)))"

definition bufioScanner :: "nat \<Rightarrow> Reader \<Rightarrow> string list \<times> error option" where
  "bufioScanner cap src = scanSegments cap (Split (content src) (CHR 0x0A)) (readErr src)"

text \<open>
  What a run does, in order: a record written to the log, and the \<open>select\<close> on
  \<open>ctx.Done()\<close> after line \<open>n\<close>. The context is the answer of each such poll:
  \<open>ctx n\<close> holds when the channel is closed at the poll after line \<open>n\<close>.
\<close>

datatype effect = Print string | Poll nat

text \<open>
  The first statements of the loop body: \<open>data\<close> starts as \<open>Structured{KVs: make([]KV, 0)}\<close>,
  and the event keeps it only when \<open>TryHandleJson\<close> returns \<open>true\<close>.
\<close>

definition newStructured :: Structured where
  "newStructured = \<lparr>Time = ZeroTime, Msg = [], Level = [], KVs = []\<rparr>"

definition buildEvent :: "env \<Rightarrow> string \<Rightarrow> Event" where
  "buildEvent E lineData =
     (case TryHandleJson E lineData newStructured of
        (True, data) \<Rightarrow> \<lparr>Structured = Some data, Raw = lineData\<rparr>
      | (False, data) \<Rightarrow> \<lparr>Structured = None, Raw = lineData\<rparr>)"

text \<open>
  The loop of \<open>Scan\<close> over the tokens, with the line counter \<open>line\<close>. The result is the
  returned error (\<open>Ok None\<close> for \<open>nil\<close>) or the panic that ended the run.
\<close>

fun scanLoop :: "env \<Rightarrow> (nat \<Rightarrow> bool) \<Rightarrow> nat \<Rightarrow> string list
    \<Rightarrow> effect list \<times> error option outcome" where
  "scanLoop E ctx line [] = ([], Ok None)"
| "scanLoop E ctx line (lineData # rest) =
     (case PrettyPrint E (buildEvent E lineData) of
        Panic p \<Rightarrow> ([], Panic p)
      | Ok (out, Some err) \<Rightarrow> (map Print out, Ok (Some err))
      | Ok (out, None) \<Rightarrow>
          if ctx (Suc line) then (map Print out @ [Poll (Suc line)], Ok None)
          else (case scanLoop E ctx (Suc line) rest of
                  (effs, res) \<Rightarrow> (map Print out @ Poll (Suc line) # effs, res)))"

text \<open>The records one line adds to the log when its rendering completes.\<close>

definition linePrints :: "env \<Rightarrow> string \<Rightarrow> string list" where
  "linePrints E lineData =
     (case PrettyPrint E (buildEvent E lineData) of Ok (out, err) \<Rightarrow> out | Panic p \<Rightarrow> [])"

text \<open>
  \<open>Scan\<close>: the scanner gets a buffer of \<open>1024*1024\<close> bytes with the same maximum; the
  loop runs while \<open>in.Scan()\<close> yields a token; \<open>in.Err()\<close> is not consulted.
\<close>

definition Scan :: "env \<Rightarrow> (nat \<Rightarrow> bool) \<Rightarrow> Reader \<Rightarrow> effect list \<times> error option outcome" where
  "Scan E ctx src = scanLoop E ctx 0 (fst (bufioScanner (1024 * 1024) src))"

section \<open>An environment for concrete runs\<close>

text \<open>
  The exact value of a JSON number literal (Go rounds it to the nearest \<open>float64\<close>; the
  two agree on the short literals used below).
\<close>

definition digitsVal :: "string \<Rightarrow> nat" where
  "digitsVal s = foldl (\<lambda>a c. 10 * a + (of_char c - 48)) 0 s"

definition decimalValue :: "string \<Rightarrow> real" where
  "decimalValue s =
     (let neg = (take 1 s = ''-'');
          s1 = (if neg then drop 1 s else s);
          ip = takeWhile isDigit s1;
          s2 = dropWhile isDigit s1;
          fr = (if take 1 s2 = ''.'' then takeWhile isDigit (drop 1 s2) else []);
          s3 = (if take 1 s2 = ''.'' then dropWhile isDigit (drop 1 s2) else s2);
          eneg = (take 1 (drop 1 s3) = ''-'');
          ex = digitsVal (filter isDigit (drop 1 s3));
          m = real (digitsVal (ip @ fr)) / 10 ^ length fr;
          v = (if eneg then m / 10 ^ ex else m * 10 ^ ex)
      in if neg then - v else v)"

text \<open>
  One environment, for evaluating the model on concrete inputs: the conversion overflow
  of amd64; the case table restricted to the code points \<open>U+0130\<close>, \<open>U+0131\<close>, \<open>U+017F\<close>
  and \<open>U+212A\<close>; colours switched off, as when the output is no terminal; maps visited
  in stored order. The time functions are reduced to the zero time (which Go formats as
  \<open>0001-01-01 00:00:00\<close>) and to the layout \<open>2006-01-02 15:04:05\<close> on one sample text
  (which formats back to itself), and float formatting to the text \<open>1\<close> for the value
  one; the other times and floats get a placeholder text.
\<close>

definition sampleEnv :: env where
  "sampleEnv =
     \<lparr> convOverflow = (\<lambda>x. - (2 ^ 63)),
       timeParses = (\<lambda>layout s. layout = ''2006-01-02 15:04:05'' \<and> s = ''2023-01-02 15:04:05''),
       timeFormat = (\<lambda>t. case t of ZeroTime \<Rightarrow> ''0001-01-01 00:00:00''
                           | Parsed layout s \<Rightarrow> s
                           | Unix sec nsec \<Rightarrow> ''YYYY-MM-DD hh:mm:ss''),
       fmtFloat = (\<lambda>bits x. if x = 1 then ''1'' else ''?''),
       parseFloat = (\<lambda>s. Some (decimalValue s)),
       toUpperRune = (\<lambda>r. if r = 0x131 then 0x49 else if r = 0x17F then 0x53 else r),
       toLowerRune = (\<lambda>r. if r = 0x130 then 0x69 else if r = 0x212A then 0x6B else r),
       noColor = True,
       colorReset = (\<lambda>c. [CHR 0x1B] @ ''[0m''),
       rangeOrder = (\<lambda>m. m) \<rparr>"

section \<open>Properties of the timestamp normalizer\<close>









section \<open>Evaluation on concrete inputs\<close>

text \<open>The unfoldings that let the simplifier run the model on a concrete line or event.\<close>

lemmas json_eval = parseJSON_def skipSpace_def isSpace_def isDigit_def scanNumber_def
  scanSign_def scanInt_def scanFraction_def scanExpSign_def scanExponent_def prepend_def toValidUTF8_def encodeRunes_def Unmarshal_def
  maxNestingDepth_def getu4_def hexVal_def simpleEscape_def encodeRune_def char_of_eq_iff
  cont_def RuneError_def

lemmas pp_eval = PrettyPrint_def sliceTo_def imin_def ToUpper_def ToLower_def isASCII_def
  mainLine_def Sprint_def levelColor_def unicode_ToUpper_def unicode_ToLower_def traceback_def
  renderKV_def char_of_eq_iff

lemmas scan_eval = Scan_def bufioScanner_def buildEvent_def newStructured_def TryHandleJson_def
  fillStructured_def moveTime_def moveMsg_def moveLevel_def index_def dropCR_def

section \<open>Properties of the JSON decoder\<close>

text \<open>
  Every scanning and parsing function returns a text shorter than the one it was given,
  so the fuel of \<open>parseJSON\<close> is never used up: more fuel gives the same result.
\<close>

lemma skipSpace_length: "length (skipSpace s) \<le> length s"
  by (simp add: skipSpace_def length_dropWhile_le)

lemma skipSpace_Cons_length: "skipSpace s = c # r \<Longrightarrow> length r < length s"
  using skipSpace_length [of s] by simp

lemma prepend_Some: "prepend bs x = Some (str, r) \<Longrightarrow> \<exists>str'. x = Some (str', r)"
  by (cases x) (auto simp: prepend_def)

lemma scanString_length: "scanString s = Some (str, r) \<Longrightarrow> length r < length s"
proof (induction "length s" arbitrary: s str r rule: less_induct)
  case less
  obtain c cs where s: "s = c # cs"
    using less.prems by (cases s) auto
  have ih: "length r < Suc (length cs)" if "scanString t = Some (a, r)" "length t \<le> length cs" for t a
  proof -
    have "length t < length s"
      using that s by simp
    then have "length r < length t"
      using less.hyps that by blast
    then show ?thesis
      using that by simp
  qed
  have "scanString (c # cs) = Some (str, r)"
    using less.prems s by simp
  then have "length r < Suc (length cs)"
    by (auto simp: Let_def split: if_splits list.splits option.splits
        dest!: prepend_Some dest: ih)
  then show ?case
    using s by simp
qed


lemma scanSign_length: "scanSign s = (sg, r) \<Longrightarrow> length r \<le> length s"
  by (auto simp: scanSign_def split: list.splits if_splits)

lemma scanExpSign_length: "scanExpSign s = (sg, r) \<Longrightarrow> length r \<le> length s"
  by (auto simp: scanExpSign_def split: list.splits if_splits)

lemma scanInt_length: "scanInt s = Some (ip, r) \<Longrightarrow> length r < length s"
  by (auto simp: scanInt_def length_dropWhile_le less_Suc_eq_le split: list.splits if_splits)

lemma scanFraction_length: "scanFraction s = Some (fr, r) \<Longrightarrow> length r \<le> length s"
  by (auto simp: scanFraction_def length_dropWhile_le le_SucI split: list.splits if_splits)

lemma scanExponent_length: "scanExponent s = Some (ex, r) \<Longrightarrow> length r \<le> length s"
proof (cases s)
  case Nil
  assume "scanExponent s = Some (ex, r)"
  then show ?thesis
    using Nil by (simp add: scanExponent_def)
next
  case (Cons c t)
  assume a: "scanExponent s = Some (ex, r)"
  obtain sg r1 where sg: "scanExpSign t = (sg, r1)"
    by (cases "scanExpSign t") auto
  have "length (dropWhile isDigit r1) \<le> length t"
    using scanExpSign_length [OF sg] length_dropWhile_le [of isDigit r1] by simp
  then show ?thesis
    using a Cons sg by (auto simp: scanExponent_def split: if_splits)
qed

lemma scanNumber_length: "scanNumber s = Some (lit, r) \<Longrightarrow> length r < length s"
proof -
  assume a: "scanNumber s = Some (lit, r)"
  obtain sg s1 where sg: "scanSign s = (sg, s1)"
    by (cases "scanSign s") auto
  obtain ip s2 where ip: "scanInt s1 = Some (ip, s2)"
    using a sg by (cases "scanInt s1") (auto simp: scanNumber_def)
  obtain fr s3 where fr: "scanFraction s2 = Some (fr, s3)"
    using a sg ip by (cases "scanFraction s2") (auto simp: scanNumber_def)
  obtain ex s4 where ex: "scanExponent s3 = Some (ex, s4)"
    using a sg ip fr by (cases "scanExponent s3") (auto simp: scanNumber_def)
  have "r = s4"
    using a sg ip fr ex by (simp add: scanNumber_def)
  then show ?thesis
    using scanSign_length [OF sg] scanInt_length [OF ip] scanFraction_length [OF fr]
      scanExponent_length [OF ex] by simp
qed

lemma parse_length:
  "(\<forall>depth s v r. parseValue n depth s = Some (v, r) \<longrightarrow> length r < length s)
   \<and> (\<forall>depth s acc v r. parseElems n depth s acc = Some (v, r) \<longrightarrow> length r < length s)
   \<and> (\<forall>depth s acc v r. parseMembers n depth s acc = Some (v, r) \<longrightarrow> length r < length s)"
proof (induction n)
  case 0
  then show ?case by simp
next
  case (Suc n)
  have ihV: "\<And>depth s v r. parseValue n depth s = Some (v, r) \<Longrightarrow> length r < length s"
    and ihE: "\<And>depth s acc v r. parseElems n depth s acc = Some (v, r) \<Longrightarrow> length r < length s"
    and ihM: "\<And>depth s acc v r. parseMembers n depth s acc = Some (v, r) \<Longrightarrow> length r < length s"
    using Suc.IH by blast+
  have V: "length r < length s" if a: "parseValue (Suc n) depth s = Some (v, r)" for depth s v r
  proof (cases "skipSpace s")
    case Nil
    then show ?thesis using a by simp
  next
    case (Cons c r0)
    have r0: "length r0 < length s"
      using Cons by (rule skipSpace_Cons_length)
    have sk: "\<And>x y t. skipSpace t = x # y \<Longrightarrow> length y < length t"
      by (rule skipSpace_Cons_length)
    show ?thesis
      using a Cons r0
      by (auto split: if_splits list.splits
          dest!: ihE ihM scanString_length scanNumber_length sk)
  qed
  have E: "length r < length s" if a: "parseElems (Suc n) depth s acc = Some (v, r)" for depth s acc v r
    using a
    by (auto split: option.splits list.splits if_splits
        dest!: ihV ihE skipSpace_Cons_length)
  have M: "length r < length s" if a: "parseMembers (Suc n) depth s acc = Some (v, r)" for depth s acc v r
    using a
    by (auto split: option.splits list.splits if_splits
        dest!: ihV ihM skipSpace_Cons_length scanString_length)
  show ?case
    using V E M by blast
qed


lemmas parseValue_length = parse_length [THEN conjunct1, rule_format]

lemma fuel_step:
  "(\<forall>depth s. 2 * length s + 1 \<le> n \<longrightarrow> parseValue (Suc n) depth s = parseValue n depth s)
   \<and> (\<forall>depth s acc. 2 * length s + 2 \<le> n \<longrightarrow>
         parseElems (Suc n) depth s acc = parseElems n depth s acc)
   \<and> (\<forall>depth s acc. 2 * length s + 2 \<le> n \<longrightarrow>
         parseMembers (Suc n) depth s acc = parseMembers n depth s acc)"
proof (induction n)
  case 0
  then show ?case by simp
next
  case (Suc m)
  have ihV: "\<And>depth s. 2 * length s + 1 \<le> m \<Longrightarrow> parseValue (Suc m) depth s = parseValue m depth s"
    and ihE: "\<And>depth s acc. 2 * length s + 2 \<le> m \<Longrightarrow>
        parseElems (Suc m) depth s acc = parseElems m depth s acc"
    and ihM: "\<And>depth s acc. 2 * length s + 2 \<le> m \<Longrightarrow>
        parseMembers (Suc m) depth s acc = parseMembers m depth s acc"
    using Suc.IH by blast+
  have V: "parseValue (Suc (Suc m)) depth s = parseValue (Suc m) depth s"
    if b: "2 * length s + 1 \<le> Suc m" for depth s
  proof (cases "skipSpace s")
    case Nil
    then show ?thesis by simp
  next
    case (Cons c r0)
    have "length r0 < length s"
      using Cons by (rule skipSpace_Cons_length)
    then have "2 * length r0 + 2 \<le> m"
      using b by linarith
    then have e: "parseElems (Suc m) (Suc depth) r0 [] = parseElems m (Suc depth) r0 []"
      and k: "parseMembers (Suc m) (Suc depth) r0 [] = parseMembers m (Suc depth) r0 []"
      using ihE ihM by blast+
    show ?thesis
      by (simp only: parseValue.simps(2) [of "Suc m" depth s] parseValue.simps(2) [of m depth s] Cons list.case e k)
  qed
  have E: "parseElems (Suc (Suc m)) depth s acc = parseElems (Suc m) depth s acc"
    if b: "2 * length s + 2 \<le> Suc m" for depth s acc
  proof -
    have v: "parseValue (Suc m) depth s = parseValue m depth s"
      using ihV b by simp
    show ?thesis
    proof (cases "parseValue m depth s")
      case None
      then show ?thesis
        by (simp only: parseElems.simps(2) [of "Suc m" depth s acc] parseElems.simps(2) [of m depth s acc] v option.case)
    next
      case (Some p)
      obtain v0 r where p: "p = (v0, r)"
        by (cases p) auto
      have r: "length r < length s"
        using Some p parseValue_length by blast
      show ?thesis
      proof (cases "skipSpace r")
        case Nil
        then show ?thesis
          by (simp only: parseElems.simps(2) [of "Suc m" depth s acc] parseElems.simps(2) [of m depth s acc] v Some p option.case prod.case list.case)
      next
        case (Cons c r')
        have "length r' < length r"
          using Cons by (rule skipSpace_Cons_length)
        then have "2 * length r' + 2 \<le> m"
          using b r by linarith
        then have e: "parseElems (Suc m) depth r' (acc @ [v0]) = parseElems m depth r' (acc @ [v0])"
          using ihE by blast
        show ?thesis
          by (simp only: parseElems.simps(2) [of "Suc m" depth s acc] parseElems.simps(2) [of m depth s acc] v Some p option.case prod.case list.case Cons e)
      qed
    qed
  qed
  have M: "parseMembers (Suc (Suc m)) depth s acc = parseMembers (Suc m) depth s acc"
    if b: "2 * length s + 2 \<le> Suc m" for depth s acc
  proof (cases "skipSpace s")
    case Nil
    then show ?thesis
      by (simp only: parseMembers.simps(2) [of "Suc m" depth s acc] parseMembers.simps(2) [of m depth s acc] list.case)
  next
    case s0: (Cons q r)
    have r: "length r < length s"
      using s0 by (rule skipSpace_Cons_length)
    show ?thesis
    proof (cases "scanString r")
      case None
      then show ?thesis
        by (simp only: parseMembers.simps(2) [of "Suc m" depth s acc] parseMembers.simps(2) [of m depth s acc] s0 list.case option.case)
    next
      case (Some p)
      obtain k r1 where p: "p = (k, r1)"
        by (cases p) auto
      have r1: "length r1 < length r"
        using Some p scanString_length by blast
      show ?thesis
      proof (cases "skipSpace r1")
        case Nil
        then show ?thesis
          by (simp only: parseMembers.simps(2) [of "Suc m" depth s acc] parseMembers.simps(2) [of m depth s acc] s0 Some p list.case option.case prod.case)
      next
        case s1: (Cons c1 r2)
        have r2: "length r2 < length r1"
          using s1 by (rule skipSpace_Cons_length)
        then have "2 * length r2 + 1 \<le> m"
          using b r r1 by linarith
        then have v: "parseValue (Suc m) depth r2 = parseValue m depth r2"
          using ihV by blast
        show ?thesis
        proof (cases "parseValue m depth r2")
          case None
          then show ?thesis
            by (simp only: parseMembers.simps(2) [of "Suc m" depth s acc] parseMembers.simps(2) [of m depth s acc] s0 Some p s1 v list.case option.case prod.case)
        next
          case pv: (Some p')
          obtain v0 r3 where p': "p' = (v0, r3)"
            by (cases p') auto
          have r3: "length r3 < length r2"
            using pv p' parseValue_length by blast
          show ?thesis
          proof (cases "skipSpace r3")
            case Nil
            then show ?thesis
              by (simp only: parseMembers.simps(2) [of "Suc m" depth s acc] parseMembers.simps(2) [of m depth s acc] s0 Some p s1 v pv p' list.case option.case prod.case)
          next
            case s3: (Cons c3 r4)
            have "length r4 < length r3"
              using s3 by (rule skipSpace_Cons_length)
            then have "2 * length r4 + 2 \<le> m"
              using b r r1 r2 r3 by linarith
            then have e: "parseMembers (Suc m) depth r4 (acc @ [(toValidUTF8 k, v0)])
                = parseMembers m depth r4 (acc @ [(toValidUTF8 k, v0)])"
              using ihM by blast
            show ?thesis
              by (simp only: parseMembers.simps(2) [of "Suc m" depth s acc] parseMembers.simps(2) [of m depth s acc] s0 Some p s1 v pv p' s3 e list.case option.case
                  prod.case)
          qed
        qed
      qed
    qed
  qed
  show ?case
    using V E M by blast
qed

lemma fuel_enough:
  "2 * length s + 1 \<le> n \<Longrightarrow> parseValue (n + k) depth s = parseValue n depth s"
proof (induction k)
  case 0
  then show ?case by simp
next
  case (Suc k)
  have "2 * length s + 1 \<le> n + k"
    using Suc.prems by simp
  then have "parseValue (Suc (n + k)) depth s = parseValue (n + k) depth s"
    using fuel_step [of "n + k"] by blast
  then show ?case
    using Suc by simp
qed

lemma parseJSON_fuel:
  "parseValue (Suc (Suc (length d + length d)) + k) 0 d
     = parseValue (Suc (Suc (length d + length d))) 0 d"
  by (rule fuel_enough) simp

text \<open>The decoded map has distinct keys.\<close>

lemma foldl_update_distinct:
  "distinct (map fst m) \<Longrightarrow> distinct (map fst (foldl (\<lambda>m (k, v). AList.update k v m) m kvs))"
proof (induction kvs arbitrary: m)
  case Nil
  then show ?case by simp
next
  case (Cons kv kvs)
  obtain k v where kv: "kv = (k, v)"
    by (cases kv) auto
  have "distinct (map fst (AList.update k v m))"
    using Cons.prems by (rule distinct_update)
  then show ?case
    using Cons.IH kv by simp
qed

lemma Unmarshal_distinct:
  assumes "Unmarshal E d = Some raw"
  shows "distinct (map fst raw)"
proof (cases "parseJSON d")
  case None
  then show ?thesis
    using assms by (simp add: Unmarshal_def)
next
  case (Some j)
  show ?thesis
  proof (cases j)
    case JNull
    then show ?thesis
      using assms Some by (simp add: Unmarshal_def)
  next
    case (JObject ms)
    then obtain kvs where "raw = foldl (\<lambda>m (k, v). AList.update k v m) [] kvs"
      using assms Some by (auto simp: Unmarshal_def split: option.splits dyn.splits)
    then show ?thesis
      using foldl_update_distinct [of "[]" kvs] by simp
  qed (use assms Some in \<open>simp_all add: Unmarshal_def\<close>)
qed

section \<open>Properties of the line renderer\<close>

lemma kvLoop_bad_entry:
  assumes "kv \<in> set kvs"
    and "Key kv = ''caller'' \<or> Key kv = ''stacktrace''"
    and "\<forall>s. Value kv \<noteq> VString s"
  shows "kvLoop E kvs st = Panic TypeAssertion"
  using assms
proof (induction kvs arbitrary: st)
  case Nil
  then show ?case by simp
next
  case (Cons a rest)
  obtain errorValue caller acc where st: "st = (errorValue, caller, acc)"
    by (cases st) auto
  show ?case
  proof (cases "a = kv")
    case True
    then show ?thesis
      using Cons.prems st by (cases "Value kv") auto
  next
    case False
    then have "kv \<in> set rest"
      using Cons.prems by simp
    then have ih: "\<And>st'. kvLoop E rest st' = Panic TypeAssertion"
      using Cons.IH Cons.prems by blast
    show ?thesis
      unfolding st by (cases "Value a") (simp_all add: ih)
  qed
qed

text \<open>
  C2. The code does not guard the assertions: an event with a \<open>caller\<close> or \<open>stacktrace\<close>
  entry whose value is no string is not rendered at all, \<open>PrettyPrint\<close> panics.
\<close>

theorem non_string_caller_panics:
  assumes "kv \<in> set (KVs data)"
    and "Key kv = ''caller'' \<or> Key kv = ''stacktrace''"
    and "\<forall>s. Value kv \<noteq> VString s"
  shows "\<exists>p. PrettyPrint E \<lparr>Structured = Some data, Raw = raw\<rparr> = Panic p"
proof (cases "sliceTo (ToUpper E (Level data)) (imin 4 (int (length (Level data))))")
  case (Ok lvl0)
  then show ?thesis
    using kvLoop_bad_entry [OF assms, of E "([], [], [])"]
    by (simp add: PrettyPrint_def)
next
  case (Panic p)
  then show ?thesis
    by (simp add: PrettyPrint_def)
qed

theorem non_string_caller_panics_witness:
  \<open>\<lparr>Key = ''caller'', Value = VBool True\<rparr> \<in> set (KVs \<lparr>Time = ZeroTime, Msg = [], Level = [], KVs = [\<lparr>Key = ''caller'', Value = VBool True\<rparr>]\<rparr>)
   \<and> Key \<lparr>Key = ''caller'', Value = VBool True\<rparr> = ''caller''
   \<and> (\<forall>s. Value \<lparr>Key = ''caller'', Value = VBool True\<rparr> \<noteq> VString s)
   \<and> (\<exists>p. PrettyPrint sampleEnv
         \<lparr>Structured = Some \<lparr>Time = ZeroTime, Msg = [], Level = [], KVs = [\<lparr>Key = ''caller'', Value = VBool True\<rparr>]\<rparr>,
          Raw = ''{"caller":true}''\<rparr> = Panic p)
   \<and> Scan sampleEnv (\<lambda>n. False) \<lparr>content = ''{"caller":true}'', readErr = None\<rparr> = ([], Panic TypeAssertion)\<close>
proof -
  have run: \<open>Scan sampleEnv (\<lambda>n. False) \<lparr>content = ''{"caller":true}'', readErr = None\<rparr> = ([], Panic TypeAssertion)\<close>
    by (simp add: json_eval scan_eval pp_eval sampleEnv_def)
  show ?thesis
    using run
      non_string_caller_panics [of "\<lparr>Key = ''caller'', Value = VBool True\<rparr>"
        "\<lparr>Time = ZeroTime, Msg = [], Level = [], KVs = [\<lparr>Key = ''caller'', Value = VBool True\<rparr>]\<rparr>"
        sampleEnv \<open>''{"caller":true}''\<close>]
    by simp
qed

text \<open>
  C3. The label is cut at \<open>min(4, len(Level))\<close> bytes of the upper-cased string. For the
  level \<open>U+0131\<close> (dotless i, two bytes) the upper-cased string is \<open>I\<close>, one byte,
  and the slice expression panics.
\<close>

theorem level_label_panics:
  assumes "toUpperRune E 0x131 = 0x49"
  shows "PrettyPrint E \<lparr>Structured = Some \<lparr>Time = t, Msg = m, Level = [CHR 0xC4, CHR 0xB1], KVs = kvs\<rparr>, Raw = raw\<rparr>
         = Panic SliceBounds"
  using assms
  by (simp add: PrettyPrint_def sliceTo_def imin_def ToUpper_def isASCII_def unicode_ToUpper_def
      encodeRunes_def encodeRune_def cont_def)

theorem level_label_panics_witness:
  \<open>toUpperRune sampleEnv 0x131 = 0x49
   \<and> PrettyPrint sampleEnv \<lparr>Structured = Some \<lparr>Time = ZeroTime, Msg = ''m'', Level = [CHR 0xC4, CHR 0xB1], KVs = []\<rparr>, Raw = ''r''\<rparr>
         = Panic SliceBounds\<close>
proof -
  have "toUpperRune sampleEnv 0x131 = 0x49"
    by (simp add: sampleEnv_def)
  then show ?thesis
    using level_label_panics [of sampleEnv ZeroTime "''m''" "[]" "''r''"] by simp
qed

text \<open>On an ASCII level the slice is within bounds and the label is its first four bytes.\<close>

lemma length_ToUpper_ascii: "isASCII l \<Longrightarrow> length (ToUpper E l) = length l"
  by (simp add: ToUpper_def)

lemma level_label_ascii:
  assumes "isASCII l"
  shows "sliceTo (ToUpper E l) (imin 4 (int (length l))) = Ok (take 4 (ToUpper E l))"
proof -
  have "length (ToUpper E l) = length l"
    using assms by (rule length_ToUpper_ascii)
  then show ?thesis
    by (auto simp: sliceTo_def imin_def)
qed

lemma kvLoop_acc:
  "kvLoop E kvs (ev, c, acc) = Ok (ev', c', acc') \<Longrightarrow>
     acc' = acc @ map (renderKV E) (filter isGeneric kvs)"
proof (induction kvs arbitrary: ev c acc)
  case Nil
  then show ?case by simp
next
  case (Cons kv rest)
  show ?case
    using Cons.prems
    by (cases "Value kv") (auto simp: isGeneric_def split: if_splits dest!: Cons.IH)
qed



lemma sort_mset_eq:
  fixes xs ys :: "'a::linorder list"
  shows "mset xs = mset ys \<Longrightarrow> sort xs = sort ys"
  by (metis properties_for_sort sorted_sort mset_sort)

lemma less_append_strict:
  fixes k1 k2 :: string
  assumes "k1 < k2" and "\<not> prefix k1 k2"
  shows "p @ k1 @ s1 < p @ k2 @ s2"
proof -
  from assms(1) have "(k1, k2) \<in> lexord {(u, v). u < v}"
    by (simp add: list_less_def)
  then obtain u a b v w where "a < b" "k1 = u @ a # v" "k2 = u @ b # w"
    using assms(2) by (auto simp: lexord_def prefix_def)
  then have "(p @ k1 @ s1, p @ k2 @ s2) \<in> lexord {(u, v). u < v}"
    using lexord_append_left_rightI [of a b "{(u, v). u < v}" "p @ u" "v @ s1" "w @ s2"]
    by simp
  then show ?thesis
    by (simp add: list_less_def)
qed

lemma renderKV_key_order:
  assumes "Key kv1 < Key kv2" and "\<not> prefix (Key kv1) (Key kv2)"
  shows "renderKV E kv1 < renderKV E kv2"
proof (cases "noColor E")
  case True
  then show ?thesis
    using less_append_strict [OF assms, of "[]"] by (simp add: renderKV_def Sprint_def)
next
  case False
  then show ?thesis
    using less_append_strict [OF assms, of "format (KeyColor DefaultPalette)"]
    by (simp add: renderKV_def Sprint_def)
qed


lemma PrettyPrint_Ok:
  assumes "PrettyPrint E \<lparr>Structured = Some data, Raw = raw\<rparr> = Ok (out, err)"
  shows "\<exists>lvl0 ev c acc.
      sliceTo (ToUpper E (Level data)) (imin 4 (int (length (Level data)))) = Ok lvl0
    \<and> kvLoop E (KVs data) ([], [], []) = Ok (ev, c, acc)
    \<and> out = mainLine E data (Sprint E (levelColor (ToLower E (Level data))) lvl0) c (sort acc)
             # (if ev \<noteq> [] then traceback E ev else [])
    \<and> err = None"
proof (cases "sliceTo (ToUpper E (Level data)) (imin 4 (int (length (Level data))))")
  case (Panic p)
  then show ?thesis
    using assms by (simp add: PrettyPrint_def)
next
  case lvl: (Ok lvl0)
  show ?thesis
  proof (cases "kvLoop E (KVs data) ([], [], [])")
    case (Panic p)
    then show ?thesis
      using assms lvl by (simp add: PrettyPrint_def)
  next
    case (Ok st)
    obtain ev c acc where st: "st = (ev, c, acc)"
      by (cases st) auto
    have "Ok (mainLine E data (Sprint E (levelColor (ToLower E (Level data))) lvl0) c (sort acc)
               # (if ev \<noteq> [] then traceback E ev else []), None) = Ok (out, err)"
      using assms lvl Ok st by (simp add: PrettyPrint_def)
    then show ?thesis
      using lvl Ok st by simp
  qed
qed

lemma PrettyPrint_main:
  assumes "PrettyPrint E \<lparr>Structured = Some data, Raw = raw\<rparr> = Ok (out, err)"
  shows "\<exists>lvl caller. out \<noteq> [] \<and> hd out = mainLine E data lvl caller (sortedFields E (KVs data))"
proof -
  obtain lvl0 ev c acc where
    k: "kvLoop E (KVs data) ([], [], []) = Ok (ev, c, acc)" and
    o: "out = mainLine E data (Sprint E (levelColor (ToLower E (Level data))) lvl0) c (sort acc)
             # (if ev \<noteq> [] then traceback E ev else [])"
    using PrettyPrint_Ok [OF assms] by blast
  have "acc = map (renderKV E) (filter isGeneric (KVs data))"
    using kvLoop_acc [OF k] by simp
  then show ?thesis
    using o by (auto simp: sortedFields_def)
qed

text \<open>
  C7, as amended. When an event is rendered, the main line carries the rendered generic
  fields, each once, sorted as rendered text; the list does not depend on the order of
  the fields; and two keys of which the smaller is no prefix of the larger are rendered
  in the order of the keys.
\<close>

theorem fields_sorted_by_rendered_text:
  assumes "PrettyPrint E \<lparr>Structured = Some data, Raw = raw\<rparr> = Ok (out, err)"
  shows "(\<exists>lvl caller. out \<noteq> [] \<and> hd out = mainLine E data lvl caller (sortedFields E (KVs data)))
    \<and> sorted (sortedFields E (KVs data))
    \<and> mset (sortedFields E (KVs data)) = image_mset (renderKV E) (filter_mset isGeneric (mset (KVs data)))
    \<and> (\<forall>kvs'. mset kvs' = mset (KVs data) \<longrightarrow> sortedFields E kvs' = sortedFields E (KVs data))
    \<and> (\<forall>kv1 kv2. Key kv1 < Key kv2 \<and> \<not> prefix (Key kv1) (Key kv2)
          \<longrightarrow> renderKV E kv1 < renderKV E kv2)"
proof -
  have perm: "\<forall>kvs'. mset kvs' = mset (KVs data) \<longrightarrow> sortedFields E kvs' = sortedFields E (KVs data)"
  proof (intro allI impI)
    fix kvs' :: "KV list"
    assume "mset kvs' = mset (KVs data)"
    then have "mset (map (renderKV E) (filter isGeneric kvs'))
        = mset (map (renderKV E) (filter isGeneric (KVs data)))"
      by (metis mset_filter mset_map)
    then show "sortedFields E kvs' = sortedFields E (KVs data)"
      unfolding sortedFields_def by (rule sort_mset_eq)
  qed
  have a: "\<exists>lvl caller. out \<noteq> [] \<and> hd out = mainLine E data lvl caller (sortedFields E (KVs data))"
    by (rule PrettyPrint_main [OF assms])
  have b: "sorted (sortedFields E (KVs data))"
    by (simp add: sortedFields_def)
  have c: "mset (sortedFields E (KVs data))
      = image_mset (renderKV E) (filter_mset isGeneric (mset (KVs data)))"
    by (simp add: sortedFields_def)
  have d: "\<forall>kv1 kv2. Key kv1 < Key kv2 \<and> \<not> prefix (Key kv1) (Key kv2)
          \<longrightarrow> renderKV E kv1 < renderKV E kv2"
    using renderKV_key_order by blast
  show ?thesis
    by (intro conjI a b c perm d)
qed

theorem fields_sorted_by_rendered_text_witness:
  "PrettyPrint sampleEnv
     \<lparr>Structured = Some \<lparr>Time = ZeroTime, Msg = ''hi'', Level = ''info'',
        KVs = [\<lparr>Key = ''b'', Value = VString ''y''\<rparr>, \<lparr>Key = ''caller'', Value = VString ''main.go:1''\<rparr>,
               \<lparr>Key = ''a'', Value = VString ''x''\<rparr>]\<rparr>, Raw = ''r''\<rparr>
     = Ok ([''0001-01-01 00:00:00 [INFO] hi'' @ [CHR 0x09] @ ''[main.go:1] a=x'' @ [CHR 0x09] @ ''b=y''], None)
   \<and> sortedFields sampleEnv [\<lparr>Key = ''b'', Value = VString ''y''\<rparr>, \<lparr>Key = ''caller'', Value = VString ''main.go:1''\<rparr>,
               \<lparr>Key = ''a'', Value = VString ''x''\<rparr>] = [''a=x'', ''b=y'']
   \<and> Key \<lparr>Key = ''a'', Value = VString ''x''\<rparr> < Key \<lparr>Key = ''b'', Value = VString ''y''\<rparr>
   \<and> \<not> prefix (Key \<lparr>Key = ''a'', Value = VString ''x''\<rparr>) (Key \<lparr>Key = ''b'', Value = VString ''y''\<rparr>)
   \<and> renderKV sampleEnv \<lparr>Key = ''a'', Value = VString ''x''\<rparr> < renderKV sampleEnv \<lparr>Key = ''b'', Value = VString ''y''\<rparr>"
proof -
  have run: "PrettyPrint sampleEnv
     \<lparr>Structured = Some \<lparr>Time = ZeroTime, Msg = ''hi'', Level = ''info'',
        KVs = [\<lparr>Key = ''b'', Value = VString ''y''\<rparr>, \<lparr>Key = ''caller'', Value = VString ''main.go:1''\<rparr>,
               \<lparr>Key = ''a'', Value = VString ''x''\<rparr>]\<rparr>, Raw = ''r''\<rparr>
     = Ok ([''0001-01-01 00:00:00 [INFO] hi'' @ [CHR 0x09] @ ''[main.go:1] a=x'' @ [CHR 0x09] @ ''b=y''], None)"
    by (simp add: pp_eval sampleEnv_def)
  have sf: "sortedFields sampleEnv [\<lparr>Key = ''b'', Value = VString ''y''\<rparr>, \<lparr>Key = ''caller'', Value = VString ''main.go:1''\<rparr>,
               \<lparr>Key = ''a'', Value = VString ''x''\<rparr>] = [''a=x'', ''b=y'']"
    by (simp add: sortedFields_def isGeneric_def renderKV_def Sprint_def sampleEnv_def)
  have k: "Key \<lparr>Key = ''a'', Value = VString ''x''\<rparr> < Key \<lparr>Key = ''b'', Value = VString ''y''\<rparr>"
    "\<not> prefix (Key \<lparr>Key = ''a'', Value = VString ''x''\<rparr>) (Key \<lparr>Key = ''b'', Value = VString ''y''\<rparr>)"
    by simp_all
  note t = fields_sorted_by_rendered_text [OF run]
  have r: "renderKV sampleEnv \<lparr>Key = ''a'', Value = VString ''x''\<rparr>
      < renderKV sampleEnv \<lparr>Key = ''b'', Value = VString ''y''\<rparr>"
    using t k by blast
  show ?thesis
    by (intro conjI run sf k r)
qed

text \<open>
  The order is not the order of the keys in general: with colours off, \<open>a=x\<close> comes
  after \<open>a1=y\<close>, since \<open>=\<close> is above \<open>1\<close>.
\<close>

theorem fields_sorted_by_rendered_text_counterexample:
  "Key \<lparr>Key = ''a'', Value = VString ''x''\<rparr> < Key \<lparr>Key = ''a1'', Value = VString ''y''\<rparr>
   \<and> PrettyPrint sampleEnv
     \<lparr>Structured = Some \<lparr>Time = ZeroTime, Msg = ''hi'', Level = ''info'',
        KVs = [\<lparr>Key = ''a'', Value = VString ''x''\<rparr>, \<lparr>Key = ''a1'', Value = VString ''y''\<rparr>]\<rparr>, Raw = ''r''\<rparr>
     = Ok ([''0001-01-01 00:00:00 [INFO] hi'' @ [CHR 0x09] @ ''[] a1=y'' @ [CHR 0x09] @ ''a=x''], None)"
  by (simp add: pp_eval sampleEnv_def)


lemma Split_nonempty: "Split s sep \<noteq> []"
  by (induction s) (auto split: list.splits)


lemma Join_Split: "Join (Split s sep) [sep] = s"
proof (induction s)
  case Nil
  then show ?case by simp
next
  case (Cons c cs)
  obtain seg segs where sp: "Split cs sep = seg # segs"
    using Split_nonempty [of cs sep] by (cases "Split cs sep") auto
  show ?case
    using Cons sp by (cases segs) auto
qed





section \<open>Properties of the classifier\<close>

lemma set_delete: "set (AList.delete k al) = {p \<in> set al. fst p \<noteq> k}"
  by (auto simp: AList.delete_eq)

lemma index_delete: "k' \<noteq> k \<Longrightarrow> index (AList.delete k raw) k' = index raw k'"
  by (simp add: index_def)

lemma moveTime_cases:
  assumes "moveTime E raw out = (out', raw')"
  shows "Msg out' = Msg out \<and> Level out' = Level out \<and> KVs out' = KVs out
    \<and> (if snd (tryParseTime E (index raw ''ts''))
        then Time out' = fst (tryParseTime E (index raw ''ts'')) \<and> raw' = AList.delete ''ts'' raw
        else Time out' = Time out \<and> raw' = raw)"
  using assms
  by (cases "tryParseTime E (index raw ''ts'')") (auto simp: moveTime_def split: bool.splits)

lemma moveMsg_cases:
  assumes "moveMsg raw out = (out', raw')"
  shows "Time out' = Time out \<and> Level out' = Level out \<and> KVs out' = KVs out
    \<and> (\<forall>s. index raw ''msg'' = VString s \<longrightarrow> Msg out' = s \<and> raw' = AList.delete ''msg'' raw)
    \<and> ((\<forall>s. index raw ''msg'' \<noteq> VString s) \<longrightarrow> Msg out' = Msg out \<and> raw' = raw)"
  using assms
  by (cases "index raw ''msg''") (auto simp: moveMsg_def)

lemma moveLevel_cases:
  assumes "moveLevel raw out = (out', raw')"
  shows "Time out' = Time out \<and> Msg out' = Msg out \<and> KVs out' = KVs out
    \<and> (\<forall>s. index raw ''level'' = VString s \<longrightarrow> Level out' = s \<and> raw' = AList.delete ''level'' raw)
    \<and> ((\<forall>s. index raw ''level'' \<noteq> VString s) \<longrightarrow> Level out' = Level out \<and> raw' = raw)"
  using assms
  by (cases "index raw ''level''") (auto simp: moveLevel_def)

lemma rangeOK_set: "rangeOK E \<Longrightarrow> set (rangeOrder E m) = set m"
  by (metis rangeOK_def set_mset_mset)


lemma fillStructured_split:
  obtains out1 raw1 out2 raw2 out3 raw3 where
    "moveTime E raw d0 = (out1, raw1)" "moveMsg raw1 out1 = (out2, raw2)"
    "moveLevel raw2 out2 = (out3, raw3)"
    "fillStructured E raw d0
       = out3\<lparr>KVs := KVs out3 @ map (\<lambda>(k, v). \<lparr>Key = k, Value = v\<rparr>) (rangeOrder E raw3)\<rparr>"
proof -
  obtain out1 raw1 where m1: "moveTime E raw d0 = (out1, raw1)"
    by (cases "moveTime E raw d0") auto
  obtain out2 raw2 where m2: "moveMsg raw1 out1 = (out2, raw2)"
    by (cases "moveMsg raw1 out1") auto
  obtain out3 raw3 where m3: "moveLevel raw2 out2 = (out3, raw3)"
    by (cases "moveLevel raw2 out2") auto
  have "fillStructured E raw d0
       = out3\<lparr>KVs := KVs out3 @ map (\<lambda>(k, v). \<lparr>Key = k, Value = v\<rparr>) (rangeOrder E raw3)\<rparr>"
    by (simp add: fillStructured_def m1 m2 m3)
  then show thesis
    using that m1 m2 m3 by blast
qed

lemma Key_image: "Key ` set (map (\<lambda>(k, v). \<lparr>Key = k, Value = v\<rparr>) m) = fst ` set m"
  by (force simp: image_iff)

lemma KV_mem:
  "(k, v) \<in> set m \<Longrightarrow> \<lparr>Key = k, Value = v\<rparr> \<in> set (map (\<lambda>(k, v). \<lparr>Key = k, Value = v\<rparr>) m)"
  by force

lemma fillStructured_props:
  assumes ok: "rangeOK E" and kvs0: "KVs d0 = []"
  shows "(snd (tryParseTime E (index raw ''ts'')) \<longrightarrow>
            Time (fillStructured E raw d0) = fst (tryParseTime E (index raw ''ts''))
          \<and> ''ts'' \<notin> Key ` set (KVs (fillStructured E raw d0)))
    \<and> (\<not> snd (tryParseTime E (index raw ''ts'')) \<longrightarrow>
            Time (fillStructured E raw d0) = Time d0
          \<and> (\<forall>v. (''ts'', v) \<in> set raw \<longrightarrow>
                \<lparr>Key = ''ts'', Value = v\<rparr> \<in> set (KVs (fillStructured E raw d0))))
    \<and> (\<forall>s. index raw ''msg'' = VString s \<longrightarrow>
            Msg (fillStructured E raw d0) = s
          \<and> ''msg'' \<notin> Key ` set (KVs (fillStructured E raw d0)))
    \<and> ((\<forall>s. index raw ''msg'' \<noteq> VString s) \<longrightarrow>
            Msg (fillStructured E raw d0) = Msg d0
          \<and> (\<forall>v. (''msg'', v) \<in> set raw \<longrightarrow>
                \<lparr>Key = ''msg'', Value = v\<rparr> \<in> set (KVs (fillStructured E raw d0))))
    \<and> (\<forall>s. index raw ''level'' = VString s \<longrightarrow>
            Level (fillStructured E raw d0) = s
          \<and> ''level'' \<notin> Key ` set (KVs (fillStructured E raw d0)))
    \<and> ((\<forall>s. index raw ''level'' \<noteq> VString s) \<longrightarrow>
            Level (fillStructured E raw d0) = Level d0
          \<and> (\<forall>v. (''level'', v) \<in> set raw \<longrightarrow>
                \<lparr>Key = ''level'', Value = v\<rparr> \<in> set (KVs (fillStructured E raw d0))))"
proof -
  obtain out1 raw1 out2 raw2 out3 raw3 where
    m1: "moveTime E raw d0 = (out1, raw1)" and m2: "moveMsg raw1 out1 = (out2, raw2)" and
    m3: "moveLevel raw2 out2 = (out3, raw3)" and
    out: "fillStructured E raw d0
       = out3\<lparr>KVs := KVs out3 @ map (\<lambda>(k, v). \<lparr>Key = k, Value = v\<rparr>) (rangeOrder E raw3)\<rparr>"
    by (rule fillStructured_split)
  note c1 = moveTime_cases [OF m1] and c2 = moveMsg_cases [OF m2] and c3 = moveLevel_cases [OF m3]
  have r1: "raw1 = raw \<or> raw1 = AList.delete ''ts'' raw"
    using c1 by (auto split: if_splits)
  have r2: "raw2 = raw1 \<or> raw2 = AList.delete ''msg'' raw1"
    using c2 by (cases "index raw1 ''msg''") auto
  have r3: "raw3 = raw2 \<or> raw3 = AList.delete ''level'' raw2"
    using c3 by (cases "index raw2 ''level''") auto
  have i1: "index raw1 ''msg'' = index raw ''msg''"
    using r1 by (auto simp: index_delete)
  have i2: "index raw2 ''level'' = index raw ''level''"
    using r1 r2 by (auto simp: index_delete)
  have kvs: "KVs (fillStructured E raw d0) = map (\<lambda>(k, v). \<lparr>Key = k, Value = v\<rparr>) (rangeOrder E raw3)"
    using out c1 c2 c3 kvs0 by simp
  have keys: "Key ` set (KVs (fillStructured E raw d0)) = fst ` set raw3"
    unfolding kvs Key_image by (simp add: rangeOK_set [OF ok])
  have mem: "\<And>k v. (k, v) \<in> set raw3 \<Longrightarrow> \<lparr>Key = k, Value = v\<rparr> \<in> set (KVs (fillStructured E raw d0))"
    unfolding kvs using KV_mem [of _ _ "rangeOrder E raw3"] by (simp add: rangeOK_set [OF ok])
  have sub3: "set raw3 \<subseteq> set raw2" and sub2: "set raw2 \<subseteq> set raw1"
    using r2 r3 by (auto simp: set_delete)
  have t1: "snd (tryParseTime E (index raw ''ts'')) \<longrightarrow>
            Time (fillStructured E raw d0) = fst (tryParseTime E (index raw ''ts''))
          \<and> ''ts'' \<notin> Key ` set (KVs (fillStructured E raw d0))"
  proof
    assume a: "snd (tryParseTime E (index raw ''ts''))"
    then have "raw1 = AList.delete ''ts'' raw" "Time out1 = fst (tryParseTime E (index raw ''ts''))"
      using c1 by auto
    then have "''ts'' \<notin> fst ` set raw3" "Time out3 = fst (tryParseTime E (index raw ''ts''))"
      using sub2 sub3 c2 c3 by (auto simp: set_delete)
    then show "Time (fillStructured E raw d0) = fst (tryParseTime E (index raw ''ts''))
          \<and> ''ts'' \<notin> Key ` set (KVs (fillStructured E raw d0))"
      using out keys by simp
  qed
  have t2: "\<not> snd (tryParseTime E (index raw ''ts'')) \<longrightarrow>
            Time (fillStructured E raw d0) = Time d0
          \<and> (\<forall>v. (''ts'', v) \<in> set raw \<longrightarrow>
                \<lparr>Key = ''ts'', Value = v\<rparr> \<in> set (KVs (fillStructured E raw d0)))"
  proof
    assume a: "\<not> snd (tryParseTime E (index raw ''ts''))"
    then have "raw1 = raw" "Time out1 = Time d0"
      using c1 by auto
    then have "\<forall>v. (''ts'', v) \<in> set raw \<longrightarrow> (''ts'', v) \<in> set raw3" "Time out3 = Time d0"
      using r2 r3 c2 c3 by (auto simp: set_delete)
    then show "Time (fillStructured E raw d0) = Time d0
          \<and> (\<forall>v. (''ts'', v) \<in> set raw \<longrightarrow>
                \<lparr>Key = ''ts'', Value = v\<rparr> \<in> set (KVs (fillStructured E raw d0)))"
      using out mem by simp
  qed
  have g1: "\<forall>s. index raw ''msg'' = VString s \<longrightarrow>
            Msg (fillStructured E raw d0) = s
          \<and> ''msg'' \<notin> Key ` set (KVs (fillStructured E raw d0))"
  proof (intro allI impI)
    fix s assume a: "index raw ''msg'' = VString s"
    then have "raw2 = AList.delete ''msg'' raw1" "Msg out2 = s"
      using c2 i1 by auto
    then have "''msg'' \<notin> fst ` set raw3" "Msg out3 = s"
      using sub3 c3 by (auto simp: set_delete)
    then show "Msg (fillStructured E raw d0) = s
          \<and> ''msg'' \<notin> Key ` set (KVs (fillStructured E raw d0))"
      using out keys by simp
  qed
  have g2: "(\<forall>s. index raw ''msg'' \<noteq> VString s) \<longrightarrow>
            Msg (fillStructured E raw d0) = Msg d0
          \<and> (\<forall>v. (''msg'', v) \<in> set raw \<longrightarrow>
                \<lparr>Key = ''msg'', Value = v\<rparr> \<in> set (KVs (fillStructured E raw d0)))"
  proof
    assume a: "\<forall>s. index raw ''msg'' \<noteq> VString s"
    then have "raw2 = raw1" "Msg out2 = Msg out1"
      using c2 i1 by auto
    then have "\<forall>v. (''msg'', v) \<in> set raw \<longrightarrow> (''msg'', v) \<in> set raw3" "Msg out3 = Msg d0"
      using r1 r3 c1 c3 by (auto simp: set_delete)
    then show "Msg (fillStructured E raw d0) = Msg d0
          \<and> (\<forall>v. (''msg'', v) \<in> set raw \<longrightarrow>
                \<lparr>Key = ''msg'', Value = v\<rparr> \<in> set (KVs (fillStructured E raw d0)))"
      using out mem by simp
  qed
  have l1: "\<forall>s. index raw ''level'' = VString s \<longrightarrow>
            Level (fillStructured E raw d0) = s
          \<and> ''level'' \<notin> Key ` set (KVs (fillStructured E raw d0))"
  proof (intro allI impI)
    fix s assume a: "index raw ''level'' = VString s"
    then have "raw3 = AList.delete ''level'' raw2" "Level out3 = s"
      using c3 i2 by auto
    then have "''level'' \<notin> fst ` set raw3" "Level out3 = s"
      by (auto simp: set_delete)
    then show "Level (fillStructured E raw d0) = s
          \<and> ''level'' \<notin> Key ` set (KVs (fillStructured E raw d0))"
      using out keys by simp
  qed
  have l2: "(\<forall>s. index raw ''level'' \<noteq> VString s) \<longrightarrow>
            Level (fillStructured E raw d0) = Level d0
          \<and> (\<forall>v. (''level'', v) \<in> set raw \<longrightarrow>
                \<lparr>Key = ''level'', Value = v\<rparr> \<in> set (KVs (fillStructured E raw d0)))"
  proof
    assume a: "\<forall>s. index raw ''level'' \<noteq> VString s"
    then have "raw3 = raw2" "Level out3 = Level out2"
      using c3 i2 by auto
    then have "\<forall>v. (''level'', v) \<in> set raw \<longrightarrow> (''level'', v) \<in> set raw3" "Level out3 = Level d0"
      using r1 r2 c1 c2 by (auto simp: set_delete)
    then show "Level (fillStructured E raw d0) = Level d0
          \<and> (\<forall>v. (''level'', v) \<in> set raw \<longrightarrow>
                \<lparr>Key = ''level'', Value = v\<rparr> \<in> set (KVs (fillStructured E raw d0)))"
      using out mem by simp
  qed
  show ?thesis
    by (intro conjI t1 t2 g1 g2 l1 l2)
qed


text \<open>
  C5. For a line that decodes to the map \<open>raw\<close>, classified into a fresh record:
  when \<open>ts\<close> resolves, the time is set and no \<open>ts\<close> field is left, otherwise the time
  stays zero and a \<open>ts\<close> entry stays among the fields; when \<open>msg\<close> is a string it
  becomes the message and no \<open>msg\<close> field is left, otherwise the message stays empty and
  a \<open>msg\<close> entry stays among the fields; and likewise for \<open>level\<close>.
\<close>

theorem classifier_reserved_fields:
  assumes ok: "rangeOK E" and dec: "Unmarshal E d = Some raw"
  shows "TryHandleJson E d newStructured = (True, fillStructured E raw newStructured)
    \<and> (snd (tryParseTime E (index raw ''ts'')) \<longrightarrow>
            Time (fillStructured E raw newStructured) = fst (tryParseTime E (index raw ''ts''))
          \<and> ''ts'' \<notin> Key ` set (KVs (fillStructured E raw newStructured)))
    \<and> (\<not> snd (tryParseTime E (index raw ''ts'')) \<longrightarrow>
            Time (fillStructured E raw newStructured) = ZeroTime
          \<and> (\<forall>v. (''ts'', v) \<in> set raw \<longrightarrow>
                \<lparr>Key = ''ts'', Value = v\<rparr> \<in> set (KVs (fillStructured E raw newStructured))))
    \<and> (\<forall>s. index raw ''msg'' = VString s \<longrightarrow>
            Msg (fillStructured E raw newStructured) = s
          \<and> ''msg'' \<notin> Key ` set (KVs (fillStructured E raw newStructured)))
    \<and> ((\<forall>s. index raw ''msg'' \<noteq> VString s) \<longrightarrow>
            Msg (fillStructured E raw newStructured) = []
          \<and> (\<forall>v. (''msg'', v) \<in> set raw \<longrightarrow>
                \<lparr>Key = ''msg'', Value = v\<rparr> \<in> set (KVs (fillStructured E raw newStructured))))
    \<and> (\<forall>s. index raw ''level'' = VString s \<longrightarrow>
            Level (fillStructured E raw newStructured) = s
          \<and> ''level'' \<notin> Key ` set (KVs (fillStructured E raw newStructured)))
    \<and> ((\<forall>s. index raw ''level'' \<noteq> VString s) \<longrightarrow>
            Level (fillStructured E raw newStructured) = []
          \<and> (\<forall>v. (''level'', v) \<in> set raw \<longrightarrow>
                \<lparr>Key = ''level'', Value = v\<rparr> \<in> set (KVs (fillStructured E raw newStructured))))"
proof -
  have z: "KVs newStructured = []" "Time newStructured = ZeroTime" "Msg newStructured = []"
    "Level newStructured = []"
    by (simp_all add: newStructured_def)
  have t: "TryHandleJson E d newStructured = (True, fillStructured E raw newStructured)"
    by (simp add: TryHandleJson_def dec)
  show ?thesis
    using t fillStructured_props [OF ok z(1), of raw] unfolding z by blast
qed

theorem classifier_reserved_fields_witness:
  \<open>rangeOK sampleEnv
   \<and> Unmarshal sampleEnv ''{"ts":"2023-01-02 15:04:05","msg":"hi","level":true,"k":"v"}''
       = Some [(''ts'', VString ''2023-01-02 15:04:05''), (''msg'', VString ''hi''),
               (''level'', VBool True), (''k'', VString ''v'')]
   \<and> TryHandleJson sampleEnv ''{"ts":"2023-01-02 15:04:05","msg":"hi","level":true,"k":"v"}'' newStructured
       = (True, \<lparr>Time = Parsed ''2006-01-02 15:04:05'' ''2023-01-02 15:04:05'', Msg = ''hi'', Level = [],
                 KVs = [\<lparr>Key = ''level'', Value = VBool True\<rparr>, \<lparr>Key = ''k'', Value = VString ''v''\<rparr>]\<rparr>)\<close>
proof -
  have ok: "rangeOK sampleEnv"
    by (simp add: rangeOK_def sampleEnv_def)
  have dec: \<open>Unmarshal sampleEnv ''{"ts":"2023-01-02 15:04:05","msg":"hi","level":true,"k":"v"}''
       = Some [(''ts'', VString ''2023-01-02 15:04:05''), (''msg'', VString ''hi''),
               (''level'', VBool True), (''k'', VString ''v'')]\<close>
    by (simp add: json_eval)
  have fill: "fillStructured sampleEnv [(''ts'', VString ''2023-01-02 15:04:05''), (''msg'', VString ''hi''),
               (''level'', VBool True), (''k'', VString ''v'')] newStructured
       = \<lparr>Time = Parsed ''2006-01-02 15:04:05'' ''2023-01-02 15:04:05'', Msg = ''hi'', Level = [],
                 KVs = [\<lparr>Key = ''level'', Value = VBool True\<rparr>, \<lparr>Key = ''k'', Value = VString ''v''\<rparr>]\<rparr>"
    by (simp add: scan_eval formats_def sampleEnv_def)
  have t: \<open>TryHandleJson sampleEnv ''{"ts":"2023-01-02 15:04:05","msg":"hi","level":true,"k":"v"}'' newStructured
       = (True, \<lparr>Time = Parsed ''2006-01-02 15:04:05'' ''2023-01-02 15:04:05'', Msg = ''hi'', Level = [],
                 KVs = [\<lparr>Key = ''level'', Value = VBool True\<rparr>, \<lparr>Key = ''k'', Value = VString ''v''\<rparr>]\<rparr>)\<close>
    using classifier_reserved_fields [OF ok dec] fill by simp
  show ?thesis
    by (intro conjI ok dec t)
qed


text \<open>
  The fields of an event built from a line have distinct keys.
\<close>

lemma fillStructured_distinct:
  assumes ok: "rangeOK E" and d: "distinct (map fst raw)"
  shows "distinct (map Key (KVs (fillStructured E raw newStructured)))"
proof -
  obtain out1 raw1 out2 raw2 out3 raw3 where
    m1: "moveTime E raw newStructured = (out1, raw1)" and m2: "moveMsg raw1 out1 = (out2, raw2)" and
    m3: "moveLevel raw2 out2 = (out3, raw3)" and
    out: "fillStructured E raw newStructured
       = out3\<lparr>KVs := KVs out3 @ map (\<lambda>(k, v). \<lparr>Key = k, Value = v\<rparr>) (rangeOrder E raw3)\<rparr>"
    by (rule fillStructured_split)
  note c1 = moveTime_cases [OF m1] and c2 = moveMsg_cases [OF m2] and c3 = moveLevel_cases [OF m3]
  have r1: "raw1 = raw \<or> raw1 = AList.delete ''ts'' raw"
    using c1 by (auto split: if_splits)
  have r2: "raw2 = raw1 \<or> raw2 = AList.delete ''msg'' raw1"
    using c2 by (cases "index raw1 ''msg''") auto
  have r3: "raw3 = raw2 \<or> raw3 = AList.delete ''level'' raw2"
    using c3 by (cases "index raw2 ''level''") auto
  have "distinct (map fst raw1)"
    using r1 d distinct_delete by auto
  then have "distinct (map fst raw2)"
    using r2 distinct_delete by auto
  then have d3: "distinct (map fst raw3)"
    using r3 distinct_delete by auto
  have "mset (map fst (rangeOrder E raw3)) = mset (map fst raw3)"
    using ok by (simp add: rangeOK_def)
  then have "distinct (map fst (rangeOrder E raw3))"
    using d3 by (metis mset_eq_imp_distinct_iff)
  moreover have "Key \<circ> (\<lambda>(k, v). \<lparr>Key = k, Value = v\<rparr>) = fst"
    by (auto simp: fun_eq_iff)
  moreover have "KVs out3 = []"
    using c1 c2 c3 by (simp add: newStructured_def)
  ultimately show ?thesis
    using out by simp
qed

lemma buildEvent_distinct:
  assumes ok: "rangeOK E" and ev: "Structured (buildEvent E l) = Some data"
  shows "distinct (map Key (KVs data))"
proof (cases "Unmarshal E l")
  case None
  then show ?thesis
    using ev by (simp add: buildEvent_def TryHandleJson_def)
next
  case (Some raw)
  then have "data = fillStructured E raw newStructured"
    using ev by (simp add: buildEvent_def TryHandleJson_def)
  then show ?thesis
    using fillStructured_distinct [OF ok Unmarshal_distinct [OF Some]] by simp
qed

section \<open>Properties of the stream scanner\<close>

lemma PrettyPrint_err:
  assumes "PrettyPrint E ev = Ok (out, err)"
  shows "err = None"
proof (cases "Structured ev")
  case None
  then show ?thesis
    using assms by (simp add: PrettyPrint_def)
next
  case (Some data)
  then have "ev = \<lparr>Structured = Some data, Raw = Raw ev\<rparr>"
    by simp
  then show ?thesis
    using PrettyPrint_Ok [of E data "Raw ev" out err] assms by metis
qed

lemma scanLoop_step:
  assumes "\<forall>p. PrettyPrint E (buildEvent E l) \<noteq> Panic p"
  shows "scanLoop E ctx n (l # rest) =
     (if ctx (Suc n) then (map Print (linePrints E l) @ [Poll (Suc n)], Ok None)
      else (map Print (linePrints E l) @ Poll (Suc n) # fst (scanLoop E ctx (Suc n) rest),
            snd (scanLoop E ctx (Suc n) rest)))"
proof (cases "PrettyPrint E (buildEvent E l)")
  case (Panic p)
  then show ?thesis
    using assms by simp
next
  case (Ok r)
  obtain out err where r: "r = (out, err)"
    by (cases r) auto
  have "err = None"
    using PrettyPrint_err Ok r by blast
  then show ?thesis
    using Ok r by (simp add: linePrints_def split: prod.splits)
qed

lemma scanLoop_no_cancel:
  assumes "\<forall>l \<in> set toks. \<forall>p. PrettyPrint E (buildEvent E l) \<noteq> Panic p"
    and "\<forall>i. n < i \<and> i \<le> n + length toks \<longrightarrow> \<not> ctx i"
  shows "scanLoop E ctx n toks =
     (concat (map (\<lambda>(i, l). map Print (linePrints E l) @ [Poll i]) (enumerate (Suc n) toks)),
      Ok None)"
  using assms
proof (induction toks arbitrary: n)
  case Nil
  then show ?case by simp
next
  case (Cons l rest)
  have ih: "scanLoop E ctx (Suc n) rest =
     (concat (map (\<lambda>(i, l). map Print (linePrints E l) @ [Poll i]) (enumerate (Suc (Suc n)) rest)),
      Ok None)"
    using Cons.IH [of "Suc n"] Cons.prems by simp
  have "\<not> ctx (Suc n)"
    using Cons.prems by simp
  then show ?case
    using scanLoop_step [of E l ctx n rest] Cons.prems ih by simp
qed

lemma scanLoop_cancel:
  assumes "\<forall>l \<in> set (take k toks). \<forall>p. PrettyPrint E (buildEvent E l) \<noteq> Panic p"
    and "1 \<le> k" "k \<le> length toks" "ctx (n + k)"
    and "\<forall>i. n < i \<and> i < n + k \<longrightarrow> \<not> ctx i"
  shows "scanLoop E ctx n toks =
     (concat (map (\<lambda>(i, l). map Print (linePrints E l) @ [Poll i]) (enumerate (Suc n) (take k toks))),
      Ok None)"
  using assms
proof (induction toks arbitrary: n k)
  case Nil
  then show ?case by simp
next
  case (Cons l rest)
  obtain k' where k: "k = Suc k'"
    using Cons.prems(2) by (cases k) auto
  have np: "\<forall>p. PrettyPrint E (buildEvent E l) \<noteq> Panic p"
    using Cons.prems(1) k by simp
  show ?case
  proof (cases "k' = 0")
    case True
    then show ?thesis
      using scanLoop_step [OF np, of ctx n rest] Cons.prems k by simp
  next
    case False
    have nc: "\<not> ctx (Suc n)"
      using Cons.prems(5) k False by simp
    have ih: "scanLoop E ctx (Suc n) rest =
       (concat (map (\<lambda>(i, l). map Print (linePrints E l) @ [Poll i])
          (enumerate (Suc (Suc n)) (take k' rest))), Ok None)"
      using Cons.IH [of k' "Suc n"] Cons.prems k False by simp
    show ?thesis
      using scanLoop_step [OF np, of ctx n rest] nc ih k by simp
  qed
qed

lemma scanLoop_never_error: "snd (scanLoop E ctx n toks) \<noteq> Ok (Some e)"
proof (induction toks arbitrary: n)
  case Nil
  then show ?case by simp
next
  case (Cons l rest)
  show ?case
  proof (cases "PrettyPrint E (buildEvent E l)")
    case (Panic p)
    then show ?thesis by simp
  next
    case (Ok r)
    obtain out err where r: "r = (out, err)"
      by (cases r) auto
    have "err = None"
      using PrettyPrint_err Ok r by blast
    then show ?thesis
      using Ok r Cons.IH [of "Suc n"] by (auto split: prod.splits)
  qed
qed


lemma Split_replicate: "c \<noteq> sep \<Longrightarrow> Split (replicate n c) sep = [replicate n c]"
  by (induction n) simp_all


text \<open>
  C10. When the poll after line \<open>k\<close> finds cancellation requested, \<open>Scan\<close> returns \<open>nil\<close>,
  which is also what it returns at the end of a stream that no poll interrupts.
\<close>

theorem cancelled_scan_returns_nil:
  assumes toks: "fst (bufioScanner (1024 * 1024) src) = toks"
    and np: "\<forall>l \<in> set (take k toks). \<forall>p. PrettyPrint E (buildEvent E l) \<noteq> Panic p"
    and k: "1 \<le> k" "k \<le> length toks" "ctx k" "\<forall>i. 1 \<le> i \<and> i < k \<longrightarrow> \<not> ctx i"
  shows "snd (Scan E ctx src) = Ok None
    \<and> ((\<forall>l \<in> set toks. \<forall>p. PrettyPrint E (buildEvent E l) \<noteq> Panic p) \<longrightarrow>
          snd (Scan E (\<lambda>n. False) src) = snd (Scan E ctx src))"
proof -
  have "\<forall>i. 0 < i \<and> i < 0 + k \<longrightarrow> \<not> ctx i"
    using k by simp
  then have c: "snd (Scan E ctx src) = Ok None"
    using scanLoop_cancel [OF np, where n = 0 and ctx = ctx] k toks by (simp add: Scan_def)
  have e: "(\<forall>l \<in> set toks. \<forall>p. PrettyPrint E (buildEvent E l) \<noteq> Panic p) \<longrightarrow>
          snd (Scan E (\<lambda>n. False) src) = snd (Scan E ctx src)"
  proof
    assume all: "\<forall>l \<in> set toks. \<forall>p. PrettyPrint E (buildEvent E l) \<noteq> Panic p"
    show "snd (Scan E (\<lambda>n. False) src) = snd (Scan E ctx src)"
      using scanLoop_no_cancel [OF all, where n = 0 and ctx = "\<lambda>n. False"] toks c by (simp add: Scan_def)
  qed
  show ?thesis
    by (intro conjI c e)
qed

text \<open>
  C1. The scanner's error is lost: on a line of \<open>1024*1024\<close> bytes the scanner stops
  with \<open>ErrTooLong\<close>, on a failing reader with the read error, and \<open>Scan\<close> returns \<open>nil\<close>
  in both runs; it returns no error on any stream.
\<close>

theorem scan_swallows_scanner_errors:
  "snd (bufioScanner (1024 * 1024) \<lparr>content = replicate (1024 * 1024) (CHR ''a''), readErr = None\<rparr>)
     = Some ErrTooLong
   \<and> Scan E ctx \<lparr>content = replicate (1024 * 1024) (CHR ''a''), readErr = None\<rparr> = ([], Ok None)
   \<and> snd (bufioScanner (1024 * 1024) \<lparr>content = ''x'', readErr = Some (ErrRead ''input/output error'')\<rparr>)
     = Some (ErrRead ''input/output error'')
   \<and> Scan E (\<lambda>n. False) \<lparr>content = ''x'', readErr = Some (ErrRead ''input/output error'')\<rparr>
     = ([Print ''x'', Poll 1], Ok None)
   \<and> snd (Scan E ctx src) \<noteq> Ok (Some e)"
proof -
  have a: "bufioScanner (1024 * 1024) \<lparr>content = replicate (1024 * 1024) (CHR ''a''), readErr = None\<rparr>
      = ([], Some ErrTooLong)"
    by (simp add: bufioScanner_def Split_replicate)
  have b: "bufioScanner (1024 * 1024) \<lparr>content = ''x'', readErr = Some (ErrRead ''input/output error'')\<rparr>
      = ([''x''], Some (ErrRead ''input/output error''))"
    by (simp add: bufioScanner_def dropCR_def)
  have x: "PrettyPrint E (buildEvent E ''x'') = Ok ([''x''], None)"
    by (simp add: buildEvent_def TryHandleJson_def PrettyPrint_def json_eval)
  have c: "Scan E (\<lambda>n. False) \<lparr>content = ''x'', readErr = Some (ErrRead ''input/output error'')\<rparr>
     = ([Print ''x'', Poll 1], Ok None)"
    unfolding Scan_def b by (simp add: x)
  have d: "snd (Scan E ctx src) \<noteq> Ok (Some e)"
    by (simp add: Scan_def scanLoop_never_error)
  have a': "Scan E ctx \<lparr>content = replicate (1024 * 1024) (CHR ''a''), readErr = None\<rparr> = ([], Ok None)"
    unfolding Scan_def a by simp
  show ?thesis
    unfolding a b using a' c d by simp
qed


lemma eval_plain: "PrettyPrint sampleEnv (buildEvent sampleEnv ''plain text error'') = Ok ([''plain text error''], None)"
  by (simp add: buildEvent_def TryHandleJson_def PrettyPrint_def json_eval)

lemma eval_x: "PrettyPrint sampleEnv (buildEvent sampleEnv ''x'') = Ok ([''x''], None)"
  by (simp add: buildEvent_def TryHandleJson_def PrettyPrint_def json_eval)

lemma eval_null:
  "PrettyPrint sampleEnv (buildEvent sampleEnv ''null'')
     = Ok ([''0001-01-01 00:00:00 [] '' @ [CHR 0x09] @ ''[] ''], None)"
  by (simp add: json_eval scan_eval pp_eval sampleEnv_def)

lemma eval_tokens:
  "bufioScanner (1024 * 1024)
     \<lparr>content = ''plain text error'' @ [CHR 0x0A] @ ''null'' @ [CHR 0x0D, CHR 0x0A] @ ''x'', readErr = None\<rparr>
     = ([''plain text error'', ''null'', ''x''], None)"
  by (simp add: bufioScanner_def dropCR_def)


theorem cancelled_scan_returns_nil_witness:
  "fst (bufioScanner (1024 * 1024)
     \<lparr>content = ''plain text error'' @ [CHR 0x0A] @ ''null'' @ [CHR 0x0D, CHR 0x0A] @ ''x'', readErr = None\<rparr>)
     = [''plain text error'', ''null'', ''x'']
   \<and> snd (Scan sampleEnv (\<lambda>n. 2 \<le> n)
     \<lparr>content = ''plain text error'' @ [CHR 0x0A] @ ''null'' @ [CHR 0x0D, CHR 0x0A] @ ''x'', readErr = None\<rparr>)
     = Ok None
   \<and> snd (Scan sampleEnv (\<lambda>n. False)
     \<lparr>content = ''plain text error'' @ [CHR 0x0A] @ ''null'' @ [CHR 0x0D, CHR 0x0A] @ ''x'', readErr = None\<rparr>)
     = Ok None"
proof -
  let ?src = "\<lparr>content = ''plain text error'' @ [CHR 0x0A] @ ''null'' @ [CHR 0x0D, CHR 0x0A] @ ''x'', readErr = None\<rparr>"
  have toks: "fst (bufioScanner (1024 * 1024) ?src) = [''plain text error'', ''null'', ''x'']"
    unfolding eval_tokens by simp
  have np: "\<forall>l \<in> set [''plain text error'', ''null'', ''x''].
      \<forall>p. PrettyPrint sampleEnv (buildEvent sampleEnv l) \<noteq> Panic p"
    by (simp add: eval_plain eval_null eval_x)
  have np2: "\<forall>l \<in> set (take 2 [''plain text error'', ''null'', ''x'']).
      \<forall>p. PrettyPrint sampleEnv (buildEvent sampleEnv l) \<noteq> Panic p"
    using np by (meson in_set_takeD)
  have k: "1 \<le> (2::nat)" "2 \<le> length [''plain text error'', ''null'', ''x'']" "(2::nat) \<le> 2"
    "\<forall>i. 1 \<le> i \<and> i < 2 \<longrightarrow> \<not> 2 \<le> (i::nat)"
    by simp_all
  note t = cancelled_scan_returns_nil [OF toks np2 k(1) k(2), of "\<lambda>n. 2 \<le> n", OF k(3) k(4)]
  have a: "snd (Scan sampleEnv (\<lambda>n. 2 \<le> n) ?src) = Ok None"
    using t by blast
  have b: "snd (Scan sampleEnv (\<lambda>n. False) ?src) = Ok None"
    using t np a by simp
  show ?thesis
    by (intro conjI toks a b)
qed

lemma parseJSON_empty: "parseJSON [] = None"
  by (simp add: json_eval)

text \<open>
  The line \<open>null\<close> decodes without error into the map, and the record of a structured
  event always holds a tab, so it is never the text \<open>null\<close>.
\<close>

lemma mainLine_tab: "CHR 0x09 \<in> set (mainLine E data lvl caller kvs)"
  by (simp add: mainLine_def)

lemma Unmarshal_null: "Unmarshal E ''null'' = Some []"
  by (simp add: Unmarshal_def json_eval)

lemma null_not_raw: "PrettyPrint E (buildEvent E ''null'') \<noteq> Ok ([''null''], None)"
proof
  assume a: "PrettyPrint E (buildEvent E ''null'') = Ok ([''null''], None)"
  have b: "buildEvent E ''null'' = \<lparr>Structured = Some (fillStructured E [] newStructured), Raw = ''null''\<rparr>"
    by (simp add: buildEvent_def TryHandleJson_def Unmarshal_null)
  obtain lvl caller where
    "hd [''null''] = mainLine E (fillStructured E [] newStructured) lvl caller
        (sortedFields E (KVs (fillStructured E [] newStructured)))"
    using PrettyPrint_main [of E "fillStructured E [] newStructured" "''null''" "[''null'']" None] a b
    by auto
  then have "CHR 0x09 \<in> set ''null''"
    using mainLine_tab [of E "fillStructured E [] newStructured" lvl caller
        "sortedFields E (KVs (fillStructured E [] newStructured))"]
    by simp
  then show False
    by (simp add: char_of_eq_iff)
qed

lemma buildEvent_null:
  "rangeOK E \<Longrightarrow> buildEvent E ''null'' = \<lparr>Structured = Some newStructured, Raw = ''null''\<rparr>"
proof -
  assume ok: "rangeOK E"
  have "mset (rangeOrder E []) = mset ([] :: (string \<times> dyn) list)"
    using ok by (simp add: rangeOK_def)
  then have r: "rangeOrder E [] = []"
    by simp
  show ?thesis
    by (simp add: buildEvent_def TryHandleJson_def Unmarshal_null fillStructured_def moveTime_def
        moveMsg_def moveLevel_def index_def newStructured_def r)
qed

text \<open>
  C6. A line that is no JSON object is not always rendered as it arrived.
  \<open>TryHandleJson\<close> tests only the error of \<open>json.Unmarshal\<close>, which accepts \<open>null\<close> for a
  map: on the line \<open>null\<close> it returns \<open>true\<close>, the event is the fresh record with no
  fields, and what is written is a decorated record without the text of the line.
  Every line on which \<open>json.Unmarshal\<close> reports an error (no JSON text, the empty line,
  a JSON array, string, number or boolean) is rendered as it arrived, by one record,
  and the scan goes on.
\<close>

theorem null_line_rendered_as_record:
  "Unmarshal E ''null'' = Some []
   \<and> fst (TryHandleJson E ''null'' out)
   \<and> PrettyPrint E (buildEvent E ''null'') \<noteq> Ok ([''null''], None)
   \<and> (rangeOK E \<longrightarrow> buildEvent E ''null'' = \<lparr>Structured = Some newStructured, Raw = ''null''\<rparr>)
   \<and> Scan sampleEnv (\<lambda>n. False) \<lparr>content = ''null'', readErr = None\<rparr>
       = ([Print (''0001-01-01 00:00:00 [] '' @ [CHR 0x09] @ ''[] ''), Poll 1], Ok None)
   \<and> ((parseJSON d = None \<or> (\<exists>j. parseJSON d = Some j \<and> j \<noteq> JNull \<and> (\<forall>ms. j \<noteq> JObject ms)))
        \<longrightarrow> Unmarshal E d = None)
   \<and> Unmarshal E [] = None
   \<and> (Unmarshal E d = None \<longrightarrow>
         buildEvent E d = \<lparr>Structured = None, Raw = d\<rparr>
       \<and> PrettyPrint E (buildEvent E d) = Ok ([d], None)
       \<and> scanLoop E ctx n (d # rest) =
           (if ctx (Suc n) then ([Print d, Poll (Suc n)], Ok None)
            else (Print d # Poll (Suc n) # fst (scanLoop E ctx (Suc n) rest),
                  snd (scanLoop E ctx (Suc n) rest))))"
proof -
  have u: "Unmarshal E ''null'' = Some []"
    by (rule Unmarshal_null)
  have t: "fst (TryHandleJson E ''null'' out)"
    by (simp add: TryHandleJson_def Unmarshal_null)
  have r: "PrettyPrint E (buildEvent E ''null'') \<noteq> Ok ([''null''], None)"
    by (rule null_not_raw)
  have e: "rangeOK E \<longrightarrow> buildEvent E ''null'' = \<lparr>Structured = Some newStructured, Raw = ''null''\<rparr>"
    by (simp add: buildEvent_null)
  have tk: "bufioScanner (1024 * 1024) \<lparr>content = ''null'', readErr = None\<rparr> = ([''null''], None)"
    by (simp add: bufioScanner_def dropCR_def)
  have s: "Scan sampleEnv (\<lambda>n. False) \<lparr>content = ''null'', readErr = None\<rparr>
       = ([Print (''0001-01-01 00:00:00 [] '' @ [CHR 0x09] @ ''[] ''), Poll 1], Ok None)"
    unfolding Scan_def tk by (simp add: eval_null)
  have a: "parseJSON d = None \<or> (\<exists>j. parseJSON d = Some j \<and> j \<noteq> JNull \<and> (\<forall>ms. j \<noteq> JObject ms))
      \<longrightarrow> Unmarshal E d = None"
  proof
    assume "parseJSON d = None \<or> (\<exists>j. parseJSON d = Some j \<and> j \<noteq> JNull \<and> (\<forall>ms. j \<noteq> JObject ms))"
    then show "Unmarshal E d = None"
    proof
      assume "parseJSON d = None"
      then show ?thesis by (simp add: Unmarshal_def)
    next
      assume "\<exists>j. parseJSON d = Some j \<and> j \<noteq> JNull \<and> (\<forall>ms. j \<noteq> JObject ms)"
      then obtain j where "parseJSON d = Some j" "j \<noteq> JNull" "\<forall>ms. j \<noteq> JObject ms"
        by blast
      then show ?thesis
        by (cases j) (simp_all add: Unmarshal_def)
    qed
  qed
  have b: "Unmarshal E [] = None"
    by (simp add: Unmarshal_def parseJSON_empty)
  have c: "Unmarshal E d = None \<longrightarrow>
         buildEvent E d = \<lparr>Structured = None, Raw = d\<rparr>
       \<and> PrettyPrint E (buildEvent E d) = Ok ([d], None)
       \<and> scanLoop E ctx n (d # rest) =
           (if ctx (Suc n) then ([Print d, Poll (Suc n)], Ok None)
            else (Print d # Poll (Suc n) # fst (scanLoop E ctx (Suc n) rest),
                  snd (scanLoop E ctx (Suc n) rest)))"
    by (simp add: buildEvent_def TryHandleJson_def PrettyPrint_def split: prod.splits)
  show ?thesis
    by (intro conjI u t r e s a b c)
qed

theorem null_line_rendered_as_record_witness:
  "rangeOK sampleEnv
   \<and> buildEvent sampleEnv ''null'' = \<lparr>Structured = Some newStructured, Raw = ''null''\<rparr>
   \<and> PrettyPrint sampleEnv (buildEvent sampleEnv ''null'')
       = Ok ([''0001-01-01 00:00:00 [] '' @ [CHR 0x09] @ ''[] ''], None)
   \<and> PrettyPrint sampleEnv (buildEvent sampleEnv ''null'') \<noteq> Ok ([''null''], None)
   \<and> parseJSON ''plain text error'' = None
   \<and> Unmarshal sampleEnv ''plain text error'' = None
   \<and> PrettyPrint sampleEnv (buildEvent sampleEnv ''plain text error'') = Ok ([''plain text error''], None)
   \<and> parseJSON ''[true]'' = Some (JArray [JBool True])
   \<and> PrettyPrint sampleEnv (buildEvent sampleEnv ''[true]'') = Ok ([''[true]''], None)
   \<and> parseJSON ''true'' = Some (JBool True)
   \<and> PrettyPrint sampleEnv (buildEvent sampleEnv ''true'') = Ok ([''true''], None)
   \<and> Scan sampleEnv (\<lambda>n. False) \<lparr>content = ''plain text error'', readErr = None\<rparr>
       = ([Print ''plain text error'', Poll 1], Ok None)"
proof -
  have ok: "rangeOK sampleEnv"
    by (simp add: rangeOK_def sampleEnv_def)
  have p: "parseJSON ''plain text error'' = None"
    by (simp add: json_eval)
  have q: "parseJSON ''[true]'' = Some (JArray [JBool True])"
    by (simp add: json_eval)
  have q': "parseJSON ''true'' = Some (JBool True)"
    by (simp add: json_eval)
  note t1 = null_line_rendered_as_record
    [where E = sampleEnv and d = "''plain text error''" and ctx = "\<lambda>n. False" and n = 0 and rest = "[]"]
  note t2 = null_line_rendered_as_record
    [where E = sampleEnv and d = "''[true]''" and ctx = "\<lambda>n. False" and n = 0 and rest = "[]"]
  note t3 = null_line_rendered_as_record
    [where E = sampleEnv and d = "''true''" and ctx = "\<lambda>n. False" and n = 0 and rest = "[]"]
  have e: "buildEvent sampleEnv ''null'' = \<lparr>Structured = Some newStructured, Raw = ''null''\<rparr>"
    using t1 ok by blast
  have n: "PrettyPrint sampleEnv (buildEvent sampleEnv ''null'') \<noteq> Ok ([''null''], None)"
    using t1 by blast
  have u1: "Unmarshal sampleEnv ''plain text error'' = None"
    using t1 p by blast
  have u2: "Unmarshal sampleEnv ''[true]'' = None"
    using t2 q by blast
  have u3: "Unmarshal sampleEnv ''true'' = None"
    using t3 q' by blast
  have r1: "PrettyPrint sampleEnv (buildEvent sampleEnv ''plain text error'') = Ok ([''plain text error''], None)"
    using t1 u1 by blast
  have r2: "PrettyPrint sampleEnv (buildEvent sampleEnv ''[true]'') = Ok ([''[true]''], None)"
    using t2 u2 by blast
  have r3: "PrettyPrint sampleEnv (buildEvent sampleEnv ''true'') = Ok ([''true''], None)"
    using t3 u3 by blast
  have tk: "bufioScanner (1024 * 1024) \<lparr>content = ''plain text error'', readErr = None\<rparr>
      = ([''plain text error''], None)"
    by (simp add: bufioScanner_def dropCR_def)
  have sl: "scanLoop sampleEnv (\<lambda>n. False) 0 [''plain text error''] =
           (if False then ([Print ''plain text error'', Poll (Suc 0)], Ok None)
            else (Print ''plain text error'' # Poll (Suc 0) # fst (scanLoop sampleEnv (\<lambda>n. False) (Suc 0) []),
                  snd (scanLoop sampleEnv (\<lambda>n. False) (Suc 0) [])))"
    using t1 u1 by blast
  have s: "Scan sampleEnv (\<lambda>n. False) \<lparr>content = ''plain text error'', readErr = None\<rparr>
       = ([Print ''plain text error'', Poll 1], Ok None)"
    unfolding Scan_def tk fst_conv sl by simp
  show ?thesis
    by (intro conjI ok e eval_null n p u1 r1 q r2 q' r3 s)
qed


end
